theory Spec2Isabelle
  imports Complex_Main "HOL-Library.Sublist"
begin

text \<open>
  A model of the browser-side services of FileMover
  (\<^verbatim>\<open>apps/gui/src/services/fileScanner.ts\<close>): the scanner with its rule matcher,
  template expansion and warnings, the plan generator with its conflict analysis and
  operation kinds, and the executor with its cancellation. Every function keeps the name it
  has in the source; state that the source mutates is passed and returned; the draws of
  \<^verbatim>\<open>Math.random()\<close>, the clock, the regular-expression engine and the moment at which
  \<^verbatim>\<open>cancel()\<close> is called are inputs.
\<close>

section \<open>JavaScript strings and numbers\<close>

text \<open>
  A string is a list of code units. Isabelle characters have eight bits, so the model covers
  strings whose code units are below 256 (Latin-1); \<open>length\<close> is the JavaScript
  \<^verbatim>\<open>.length\<close>.
\<close>

definition toLowerCase_char :: "char \<Rightarrow> char" where
  "toLowerCase_char c =
     (let n = (of_char c :: nat) in
      if (65 \<le> n \<and> n \<le> 90) \<or> (192 \<le> n \<and> n \<le> 222 \<and> n \<noteq> 215)
      then char_of (n + 32) else c)"

definition toLowerCase :: "string \<Rightarrow> string" where
  "toLowerCase s = map toLowerCase_char s"

text \<open>\<^verbatim>\<open>s.includes(t)\<close>: \<open>t\<close> occurs in \<open>s\<close> as a contiguous run.\<close>

fun str_includes :: "string \<Rightarrow> string \<Rightarrow> bool" where
  "str_includes [] t = (t = [])"
| "str_includes (c # s) t = (prefix t (c # s) \<or> str_includes s t)"

text \<open>\<^verbatim>\<open>s.indexOf(t)\<close>, with \<open>None\<close> for the result \<open>-1\<close>.\<close>

fun indexOf :: "string \<Rightarrow> string \<Rightarrow> nat option" where
  "indexOf [] t = (if t = [] then Some 0 else None)"
| "indexOf (c # s) t =
     (if prefix t (c # s) then Some 0 else map_option Suc (indexOf s t))"

text \<open>
  \<^verbatim>\<open>s.lastIndexOf(c)\<close> for a one-character \<open>c\<close>; the accumulator holds the
  last position seen so far and starts at \<open>-1\<close>.
\<close>

fun lastIndexOf_from :: "char \<Rightarrow> int \<Rightarrow> int \<Rightarrow> string \<Rightarrow> int" where
  "lastIndexOf_from c i acc [] = acc"
| "lastIndexOf_from c i acc (x # xs) =
     lastIndexOf_from c (i + 1) (if x = c then i else acc) xs"

definition lastIndexOf :: "string \<Rightarrow> char \<Rightarrow> int" where
  "lastIndexOf s c = lastIndexOf_from c 0 (-1) s"

text \<open>
  \<^verbatim>\<open>s.substring(a, b)\<close>: both indices are clamped to \<open>[0, length s]\<close> and
  swapped when \<open>a > b\<close>.
\<close>

definition substring :: "string \<Rightarrow> int \<Rightarrow> int \<Rightarrow> string" where
  "substring s a b =
     (let n = int (length s);
          a' = max 0 (min a n);
          b' = max 0 (min b n);
          lo = min a' b';
          hi = max a' b'
      in take (nat (hi - lo)) (drop (nat lo) s))"

text \<open>
  \<^verbatim>\<open>s.split(c)\<close> for a one-character separator: the pieces between the
  separators, never an empty array.
\<close>

fun split :: "string \<Rightarrow> char \<Rightarrow> string list" where
  "split [] c = [[]]"
| "split (x # xs) c =
     (if x = c then [] # split xs c
      else (case split xs c of
              w # ws \<Rightarrow> (x # w) # ws
            | [] \<Rightarrow> [[x]]))"

text \<open>
  The replacement text of \<^verbatim>\<open>String.prototype.replace\<close> when the pattern is a
  string (no capture groups): \<^verbatim>\<open>$$\<close> is a dollar sign, \<^verbatim>\<open>$&\<close> the matched
  text, \<^verbatim>\<open>$`\<close> the text before the match, \<^verbatim>\<open>$'\<close> the text after it; every
  other character, also a dollar sign before a digit, stands for itself.
\<close>

fun getSubstitution :: "string \<Rightarrow> string \<Rightarrow> string \<Rightarrow> string \<Rightarrow> string" where
  "getSubstitution matched preceding following [] = []"
| "getSubstitution matched preceding following [c] = [c]"
| "getSubstitution matched preceding following (c # d # r) =
     (if c = CHR ''$'' then
        (if d = CHR ''$'' then CHR ''$'' # getSubstitution matched preceding following r
         else if d = CHR ''&'' then matched @ getSubstitution matched preceding following r
         else if d = CHR 0x60 then preceding @ getSubstitution matched preceding following r
         else if d = CHR 0x27 then following @ getSubstitution matched preceding following r
         else c # getSubstitution matched preceding following (d # r))
      else c # getSubstitution matched preceding following (d # r))"

text \<open>
  \<^verbatim>\<open>s.replace(pat, rep)\<close> with a string pattern: only the first occurrence is
  replaced, and a string without the pattern is returned unchanged.
\<close>

definition replace :: "string \<Rightarrow> string \<Rightarrow> string \<Rightarrow> string" where
  "replace s pat rep =
     (case indexOf s pat of
        None \<Rightarrow> s
      | Some i \<Rightarrow>
          take i s
          @ getSubstitution pat (take i s) (drop (i + length pat) s) rep
          @ drop (i + length pat) s)"

text \<open>\<^verbatim>\<open>n.toString()\<close> for a non-negative integer.\<close>

definition digit_char :: "nat \<Rightarrow> char" where
  "digit_char d = ''0123456789'' ! d"

fun toString :: "nat \<Rightarrow> string" where
  "toString n = (if n < 10 then [digit_char n] else toString (n div 10) @ [digit_char (n mod 10)])"

declare toString.simps [simp del]

definition padStart :: "string \<Rightarrow> nat \<Rightarrow> char \<Rightarrow> string" where
  "padStart s n c = replicate (n - length s) c @ s"

definition backslash :: char where
  "backslash = CHR 0x5C"

section \<open>JavaScript numbers\<close>

text \<open>
  A JavaScript number is an IEEE 754 double. The draws of \<^verbatim>\<open>Math.random()\<close> and the
  values of expressions that can have a fraction are real numbers, and every arithmetic
  result is rounded to the nearest double, ties to the even significand: \<open>fl x\<close> is the
  double nearest to the real \<open>x\<close>, for a magnitude below \<open>2 ^ 1024\<close>. A literal such as
  \<^verbatim>\<open>0.3\<close> denotes \<open>fl 0.3\<close>. Sizes in bytes are integers that are doubles. Counters
  (of folders, files, operations, conflicts, warnings) are integers; they stay far below
  \<open>2 ^ 53\<close>, where double arithmetic on integers is exact.
\<close>

text \<open>The number of binary digits of a positive integer.\<close>

function bit_length :: "int \<Rightarrow> int" where
  "bit_length n = (if n \<le> 0 then 0 else bit_length (n div 2) + 1)"
  by pat_completeness auto

termination
  by (relation "measure nat") auto

declare bit_length.simps [simp del]

text \<open>The exponent \<open>e\<close> of a positive real \<open>x\<close>: \<open>2 ^ e \<le> x < 2 ^ (e + 1)\<close>.\<close>

definition binary_exponent :: "real \<Rightarrow> int" where
  "binary_exponent x =
     (if 1 \<le> x then bit_length \<lfloor>x\<rfloor> - 1
      else - bit_length (\<lceil>1 / x\<rceil> - 1))"

definition pow2 :: "int \<Rightarrow> real" where
  "pow2 k = (if 0 \<le> k then 2 ^ nat k else 1 / 2 ^ nat (- k))"

definition round_half_even :: "real \<Rightarrow> int" where
  "round_half_even q =
     (let f = \<lfloor>q\<rfloor>;
          d = q - of_int f
      in if d < 1 / 2 then f
         else if 1 / 2 < d then f + 1
         else if even f then f else f + 1)"

text \<open>
  Rounding to 53 significant bits; below \<open>2 ^ (-1022)\<close> the spacing of the doubles stays
  \<open>2 ^ (-1074)\<close>.
\<close>

definition fl :: "real \<Rightarrow> real" where
  "fl x =
     (if x = 0 then 0
      else
        (let e = max (binary_exponent \<bar>x\<bar>) (- 1022);
             u = pow2 (e - 52)
         in sgn x * of_int (round_half_even (\<bar>x\<bar> / u)) * u))"

text \<open>
  A total of byte counts: an integer that is a double, or an infinity once a sum has left
  the range of the doubles. \<open>round_number\<close> is the double nearest to an integer; an
  integer of magnitude up to \<open>2 ^ 53\<close> is a double. \<open>add_number t n\<close> is
  \<^verbatim>\<open>t + n\<close> (as in \<^verbatim>\<open>t += n\<close>) for a finite integer \<open>n\<close>.
\<close>

datatype number = Finite int | PlusInfinity | MinusInfinity

definition round_number :: "int \<Rightarrow> number" where
  "round_number x =
     (if \<bar>x\<bar> \<le> 2 ^ 53 then Finite x
      else
        (let y = \<lfloor>fl (of_int x)\<rfloor>
         in if 2 ^ 1024 \<le> y then PlusInfinity
            else if y \<le> - (2 ^ 1024) then MinusInfinity
            else Finite y))"

fun add_number :: "number \<Rightarrow> int \<Rightarrow> number" where
  "add_number (Finite a) n = round_number (a + n)"
| "add_number PlusInfinity n = PlusInfinity"
| "add_number MinusInfinity n = MinusInfinity"

section \<open>Types (types/index.ts)\<close>

datatype PatternKind = Glob | Regex | Contains

datatype ConflictPolicy = AutoRename | PolicySkip | Overwrite

record PatternSpec =
  pattern_kind :: PatternKind
  pattern_value :: string
  is_exclude :: bool
  case_insensitive :: bool

record Rule =
  rule_id :: string
  enabled :: bool
  pattern :: PatternSpec
  dest_root :: string
  template :: string
  policy :: ConflictPolicy
  label :: "string option"
  priority :: int

datatype Warning = LongPath | AclDiffers | Offline | AccessDenied | Junction | CrossVolume

record FolderHit =
  path :: string
  name :: string
  matched_rule :: "string option"
  dest_preview :: "string option"
  warnings :: "Warning list"
  size_bytes :: "int option"

section \<open>FileScanner: the matcher\<close>

text \<open>
  The regular-expression engine of the host is a parameter: \<open>rx source ignoreCase text\<close>
  is \<open>None\<close> when \<^verbatim>\<open>new RegExp(source, flags)\<close> throws and otherwise the result of
  \<^verbatim>\<open>.test(text)\<close>.
\<close>

type_synonym RegExp = "string \<Rightarrow> bool \<Rightarrow> string \<Rightarrow> bool option"

text \<open>
  \<^verbatim>\<open>matchGlob\<close> escapes every regular-expression metacharacter of the pattern, turns
  \<^verbatim>\<open>*\<close> into \<^verbatim>\<open>.*\<close> and \<^verbatim>\<open>?\<close> into \<^verbatim>\<open>.\<close>, and tests the
  text against the result anchored at both ends. The expression so built has only literal
  characters, \<^verbatim>\<open>.*\<close> and \<^verbatim>\<open>.\<close>, and always compiles; the function below is
  its meaning: \<^verbatim>\<open>.\<close> stands for any character that is not a line terminator.
\<close>

definition lineTerminator :: "char \<Rightarrow> bool" where
  "lineTerminator c = (c = CHR 0x0A \<or> c = CHR 0x0D)"

fun matchGlob :: "string \<Rightarrow> string \<Rightarrow> bool" where
  "matchGlob text [] = (text = [])"
| "matchGlob text (p # ps) =
     (if p = CHR ''*'' then
        (matchGlob text ps
         \<or> (case text of [] \<Rightarrow> False
             | c # cs \<Rightarrow> \<not> lineTerminator c \<and> matchGlob cs (p # ps)))
      else if p = CHR ''?'' then
        (case text of [] \<Rightarrow> False
         | c # cs \<Rightarrow> \<not> lineTerminator c \<and> matchGlob cs ps)
      else
        (case text of [] \<Rightarrow> False
         | c # cs \<Rightarrow> c = p \<and> matchGlob cs ps))"

definition matchesPattern :: "RegExp \<Rightarrow> string \<Rightarrow> Rule \<Rightarrow> bool" where
  "matchesPattern rx text rule =
     (let p = pattern rule;
          testText = (if case_insensitive p then toLowerCase text else text);
          testValue = (if case_insensitive p then toLowerCase (pattern_value p)
                       else pattern_value p)
      in case pattern_kind p of
           Contains \<Rightarrow> (str_includes testText testValue \<noteq> is_exclude p)
         | Glob \<Rightarrow> (matchGlob testText testValue \<noteq> is_exclude p)
         | Regex \<Rightarrow>
             (case rx testValue (case_insensitive p) text of
                Some b \<Rightarrow> (b \<noteq> is_exclude p)
              | None \<Rightarrow> False))"

text \<open>The loop of \<^verbatim>\<open>findMatchingRule\<close> over \<^verbatim>\<open>this.rules\<close>.\<close>

fun findMatchingRule :: "RegExp \<Rightarrow> Rule list \<Rightarrow> string \<Rightarrow> Rule option" where
  "findMatchingRule rx [] folderName = None"
| "findMatchingRule rx (rule # rules) folderName =
     (if \<not> enabled rule then findMatchingRule rx rules folderName
      else if matchesPattern rx folderName rule then Some rule
      else findMatchingRule rx rules folderName)"

text \<open>
  \<^verbatim>\<open>updateRule(index, { enabled: b })\<close> of the setup page: the rule at \<open>index\<close>
  gets the new flag, every other rule is kept.
\<close>

definition updateRule_enabled :: "nat \<Rightarrow> bool \<Rightarrow> Rule list \<Rightarrow> Rule list" where
  "updateRule_enabled index b rules =
     map (\<lambda>(i, rule). if i = index then rule\<lparr>enabled := b\<rparr> else rule)
         (enumerate 0 rules)"

section \<open>FileScanner: mock results\<close>

text \<open>
  \<^verbatim>\<open>Math.random()\<close> is an explicit sequence of draws together with the position of
  the next draw: a function that draws returns the new position. Each draw lies in
  \<open>[0, 1)\<close>. The local calendar date read by \<^verbatim>\<open>new Date()\<close> is a parameter.
\<close>

type_synonym Random = "nat \<Rightarrow> real"

record LocalDate =
  getFullYear :: nat
  getMonth :: nat
  getDate :: nat

record Folder =
  folder_path :: string
  folder_name :: string
  folder_size :: int

text \<open>\<^verbatim>\<open>a || b\<close> on strings: the empty string is falsy.\<close>

definition or_else :: "string \<Rightarrow> string \<Rightarrow> string" where
  "or_else a b = (if a \<noteq> [] then a else b)"

definition MiB :: int where
  "MiB = 1024 * 1024"

definition generateRealisticFolders :: "string \<Rightarrow> Folder list" where
  "generateRealisticFolders rootPath =
     (let baseName = or_else (last (split rootPath backslash))
                             (or_else (last (split rootPath (CHR ''/''))) ''root'')
      in if str_includes (toLowerCase rootPath) ''documents'' then
           [\<lparr>folder_path = rootPath @ [backslash] @ ''Photos'' @ [backslash] @ ''Vacation2024'',
             folder_name = ''Vacation2024'', folder_size = MiB * 85\<rparr>,
            \<lparr>folder_path = rootPath @ [backslash] @ ''Projects'' @ [backslash] @ ''WebApp'',
             folder_name = ''WebApp'', folder_size = MiB * 45\<rparr>,
            \<lparr>folder_path = rootPath @ [backslash] @ ''Old Files'' @ [backslash] @ ''Archive'',
             folder_name = ''Archive'', folder_size = MiB * 156\<rparr>]
         else if str_includes (toLowerCase rootPath) ''downloads'' then
           [\<lparr>folder_path = rootPath @ [backslash] @ ''Software'' @ [backslash] @ ''Installers'',
             folder_name = ''Installers'', folder_size = MiB * 234\<rparr>,
            \<lparr>folder_path = rootPath @ [backslash] @ ''Videos'' @ [backslash] @ ''Movies'',
             folder_name = ''Movies'', folder_size = MiB * 2560\<rparr>,
            \<lparr>folder_path = rootPath @ [backslash] @ ''Documents'' @ [backslash] @ ''PDFs'',
             folder_name = ''PDFs'', folder_size = MiB * 67\<rparr>]
         else
           [\<lparr>folder_path = rootPath @ [backslash] @ baseName @ ''_backup'',
             folder_name = baseName @ ''_backup'', folder_size = MiB * 123\<rparr>,
            \<lparr>folder_path = rootPath @ [backslash] @ ''temp'' @ [backslash] @ ''cache'',
             folder_name = ''cache'', folder_size = MiB * 34\<rparr>,
            \<lparr>folder_path = rootPath @ [backslash] @ ''media'' @ [backslash] @ ''images'',
             folder_name = ''images'', folder_size = MiB * 78\<rparr>])"

definition generateDestinationPath :: "LocalDate \<Rightarrow> Folder \<Rightarrow> Rule \<Rightarrow> string" where
  "generateDestinationPath now folder rule =
     (let t0 = template rule;
          t1 = replace t0 ''{name}'' (folder_name folder);
          t2 = replace t1 ''{year}'' (toString (getFullYear now));
          t3 = replace t2 ''{month}'' (padStart (toString (getMonth now + 1)) 2 (CHR ''0''));
          t4 = replace t3 ''{day}'' (padStart (toString (getDate now)) 2 (CHR ''0''))
      in dest_root rule @ [backslash] @ t4)"

text \<open>
  \<^verbatim>\<open>analyzeWarnings\<close> draws once, and a second time when the first draw is below
  \<^verbatim>\<open>0.3\<close>; the second draw picks \<^verbatim>\<open>possibleWarnings[Math.floor(r * 2)]\<close>.
\<close>

definition analyzeWarnings :: "Random \<Rightarrow> nat \<Rightarrow> string \<Rightarrow> Warning list \<times> nat" where
  "analyzeWarnings rnd k p =
     (let w1 = (if length p > 250 then [LongPath] else []);
          w2 = (if str_includes p ''$'' \<or> str_includes p ''@'' then w1 @ [AclDiffers] else w1)
      in if rnd k < fl 0.3 then
           (w2 @ [if \<lfloor>fl (rnd (k + 1) * 2)\<rfloor> = 0 then Junction else CrossVolume], k + 2)
         else (w2, k + 1))"

text \<open>\<^verbatim>\<open>matchedRule?.label || matchedRule?.id\<close>.\<close>

definition label_or_id :: "Rule option \<Rightarrow> string option" where
  "label_or_id m =
     (case m of
        None \<Rightarrow> None
      | Some rule \<Rightarrow>
          (case label rule of
             Some l \<Rightarrow> if l \<noteq> [] then Some l else Some (rule_id rule)
           | None \<Rightarrow> Some (rule_id rule)))"

text \<open>
  The loop body of \<^verbatim>\<open>generateMockResults\<close>: one hit is pushed for every folder.
\<close>

fun mockResultsLoop ::
  "RegExp \<Rightarrow> Rule list \<Rightarrow> LocalDate \<Rightarrow> Random \<Rightarrow> nat \<Rightarrow> Folder list \<Rightarrow> FolderHit list
   \<Rightarrow> FolderHit list \<times> nat" where
  "mockResultsLoop rx rules now rnd k [] results = (results, k)"
| "mockResultsLoop rx rules now rnd k (folder # folders) results =
     (let matchedRule = findMatchingRule rx rules (folder_name folder);
          (ws, k') = analyzeWarnings rnd k (folder_path folder);
          hit = \<lparr>path = folder_path folder,
                 name = folder_name folder,
                 matched_rule = label_or_id matchedRule,
                 dest_preview = (case matchedRule of
                                   Some rule \<Rightarrow> Some (generateDestinationPath now folder rule)
                                 | None \<Rightarrow> None),
                 warnings = ws,
                 size_bytes = Some (folder_size folder)\<rparr>
      in mockResultsLoop rx rules now rnd k' folders (results @ [hit]))"

definition generateMockResults ::
  "RegExp \<Rightarrow> Rule list \<Rightarrow> LocalDate \<Rightarrow> Random \<Rightarrow> nat \<Rightarrow> string \<Rightarrow> FolderHit list
   \<Rightarrow> FolderHit list \<times> nat" where
  "generateMockResults rx rules now rnd k rootPath results =
     mockResultsLoop rx rules now rnd k (generateRealisticFolders rootPath) results"

section \<open>PlanGenerator\<close>

datatype Permission = Administrator | FileSystemWrite | NetworkAccess

datatype Conflict =
    NameExists string
  | CycleDetected
  | DestInsideSource
  | NoSpace int int
  | Permission Permission

datatype OpKind = Move | CopyDelete | Rename | Skip | OpNone

record PlanNode =
  node_id :: string
  is_dir :: bool
  name_before :: string
  path_before :: string
  name_after :: string
  path_after :: string
  kind :: OpKind
  node_size_bytes :: "int option"
  node_warnings :: "Warning list"
  conflicts :: "Conflict list"
  children :: "string list"
  node_rule_id :: "string option"

record PlanSummary =
  count_dirs :: nat
  count_files :: int
  total_bytes :: "number option"
  cross_volume :: nat
  summary_conflicts :: nat
  summary_warnings :: nat

text \<open>
  \<^verbatim>\<open>nodes: Record<string, PlanNode>\<close> is an association list in insertion order, as
  the properties of a JavaScript object are; assigning to a key that is present replaces its
  value in place.
\<close>

record MovePlan =
  roots :: "string list"
  nodes :: "(string \<times> PlanNode) list"
  summary :: PlanSummary

fun set_property :: "string \<Rightarrow> 'v \<Rightarrow> (string \<times> 'v) list \<Rightarrow> (string \<times> 'v) list" where
  "set_property key v [] = [(key, v)]"
| "set_property key v ((k, x) # ps) =
     (if k = key then (k, v) # ps else (k, x) # set_property key v ps)"

datatype SessionStatus = Created | Running | Completed | Failed | Cancelled

record PlanSession =
  plan_session_id :: string
  scan_id :: "string option"
  plan_status :: SessionStatus
  plan :: "MovePlan option"
  plan_error :: "string option"

record PlanGenerator =
  session :: PlanSession
  folderHits :: "FolderHit list"
  generator_nodes :: "(string \<times> PlanNode) list"

definition new_PlanGenerator :: "string \<Rightarrow> FolderHit list \<Rightarrow> PlanGenerator" where
  "new_PlanGenerator sessionId hits =
     \<lparr>session = \<lparr>plan_session_id = sessionId, scan_id = None, plan_status = Created,
                  plan = None, plan_error = None\<rparr>,
      folderHits = hits,
      generator_nodes = []\<rparr>"

text \<open>
  Truthiness of an optional string and of an optional number: \<^verbatim>\<open>undefined\<close>, the
  empty string and zero are falsy.
\<close>

definition truthy_string :: "string option \<Rightarrow> string option" where
  "truthy_string x = (case x of Some s \<Rightarrow> if s \<noteq> [] then Some s else None | None \<Rightarrow> None)"

definition truthy_number :: "int option \<Rightarrow> int option" where
  "truthy_number x = (case x of Some n \<Rightarrow> if n \<noteq> 0 then Some n else None | None \<Rightarrow> None)"

text \<open>
  \<^verbatim>\<open>analyzeConflicts\<close> draws for the simulated name conflict when the hit has a
  destination, and for the simulated space conflict (up to two draws) when the hit is larger
  than 100 MiB.
\<close>

definition analyzeConflicts :: "Random \<Rightarrow> nat \<Rightarrow> FolderHit \<Rightarrow> Conflict list \<times> nat" where
  "analyzeConflicts rnd k hit =
     (let (c1, k1) =
            (case truthy_string (dest_preview hit) of
               Some d \<Rightarrow> (if rnd k < fl 0.3 then [NameExists (d @ ''_backup'')] else [], k + 1)
             | None \<Rightarrow> ([], k));
          c2 = (if AccessDenied \<in> set (warnings hit)
                then c1 @ [Permission Administrator] else c1);
          (c3, k3) =
            (case truthy_number (size_bytes hit) of
               Some required \<Rightarrow>
                 (if required > MiB * 100 then
                    (if rnd k1 < fl 0.2 then
                       (let available =
                              \<lfloor>fl (real_of_int required
                                   * fl (fl 0.7 + fl (rnd (k1 + 1) * fl 0.2)))\<rfloor>
                        in (if available < required
                            then c2 @ [NoSpace required available] else c2, k1 + 2))
                     else (c2, k1 + 1))
                  else (c2, k1))
             | None \<Rightarrow> (c2, k1));
          c4 = (case truthy_string (dest_preview hit) of
                  Some d \<Rightarrow>
                    (if str_includes (toLowerCase (path hit)) (toLowerCase d)
                     then c3 @ [DestInsideSource] else c3)
                | None \<Rightarrow> c3)
      in (c4, k3))"

text \<open>\<^verbatim>\<open>p.match(/^([A-Za-z]):/)\<close>: the drive letter, when the path starts with one.\<close>

definition asciiLetter :: "char \<Rightarrow> bool" where
  "asciiLetter c =
     (let n = (of_char c :: nat) in (65 \<le> n \<and> n \<le> 90) \<or> (97 \<le> n \<and> n \<le> 122))"

definition driveLetter :: "string \<Rightarrow> char option" where
  "driveLetter p =
     (case p of
        c # d # rest \<Rightarrow> if asciiLetter c \<and> d = CHR '':'' then Some c else None
      | _ \<Rightarrow> None)"

definition isCrossVolume :: "string \<Rightarrow> string \<Rightarrow> bool" where
  "isCrossVolume sourcePath destPath =
     (case (driveLetter sourcePath, driveLetter destPath) of
        (Some s, Some d) \<Rightarrow> toLowerCase [s] \<noteq> toLowerCase [d]
      | _ \<Rightarrow> hd (split sourcePath backslash) \<noteq> hd (split destPath backslash))"

text \<open>
  \<^verbatim>\<open>determineOperationKind\<close> runs \<^verbatim>\<open>analyzeConflicts\<close> again, with draws of
  its own.
\<close>

definition determineOperationKind :: "Random \<Rightarrow> nat \<Rightarrow> FolderHit \<Rightarrow> OpKind \<times> nat" where
  "determineOperationKind rnd k hit =
     (case truthy_string (dest_preview hit) of
        None \<Rightarrow> (Skip, k)
      | Some d \<Rightarrow>
          (let (cs, k1) = analyzeConflicts rnd k hit
           in if length cs > 0 then (Skip, k1)
              else if AccessDenied \<in> set (warnings hit) then (Skip, k1)
              else if isCrossVolume (path hit) d then (CopyDelete, k1)
              else
                (let sourcePath = substring (path hit) 0 (lastIndexOf (path hit) backslash);
                     destPath = substring d 0 (lastIndexOf d backslash)
                 in if toLowerCase sourcePath = toLowerCase destPath then (Rename, k1)
                    else (Move, k1))))"

text \<open>The local variables of \<^verbatim>\<open>generatePlan\<close> and the position of the next draw.\<close>

record PlanLoop =
  rootIds :: "string list"
  totalBytes :: number
  countDirs :: nat
  countFiles :: int
  crossVolume :: nat
  totalConflicts :: nat
  totalWarnings :: nat
  loop_nodes :: "(string \<times> PlanNode) list"
  next_draw :: nat

definition planStep :: "Random \<Rightarrow> nat \<Rightarrow> FolderHit \<Rightarrow> PlanLoop \<Rightarrow> PlanLoop" where
  "planStep rnd i hit st =
     (let nodeId = ''node_'' @ toString i;
          (cs, k1) = analyzeConflicts rnd (next_draw st) hit;
          estimatedFiles = \<lfloor>fl (rnd k1 * 50)\<rfloor> + 10;
          bytes = (case truthy_number (size_bytes hit) of
                     Some n \<Rightarrow> add_number (totalBytes st) n
                   | None \<Rightarrow> totalBytes st);
          cross = (case truthy_string (dest_preview hit) of
                     Some d \<Rightarrow> if isCrossVolume (path hit) d
                              then crossVolume st + 1 else crossVolume st
                   | None \<Rightarrow> crossVolume st);
          (opKind, k2) = determineOperationKind rnd (k1 + 1) hit;
          node = \<lparr>node_id = nodeId,
                  is_dir = True,
                  name_before = name hit,
                  path_before = path hit,
                  name_after = name hit,
                  path_after = (case truthy_string (dest_preview hit) of
                                  Some d \<Rightarrow> d | None \<Rightarrow> path hit),
                  kind = opKind,
                  node_size_bytes = size_bytes hit,
                  node_warnings = warnings hit,
                  conflicts = cs,
                  children = [],
                  node_rule_id = matched_rule hit\<rparr>
      in \<lparr>rootIds = rootIds st @ [nodeId],
          totalBytes = bytes,
          countDirs = countDirs st + 1,
          countFiles = countFiles st + estimatedFiles,
          crossVolume = cross,
          totalConflicts = totalConflicts st + length cs,
          totalWarnings = totalWarnings st + length (warnings hit),
          loop_nodes = set_property nodeId node (loop_nodes st),
          next_draw = k2\<rparr>)"

fun planLoop :: "Random \<Rightarrow> nat \<Rightarrow> FolderHit list \<Rightarrow> PlanLoop \<Rightarrow> PlanLoop" where
  "planLoop rnd i [] st = st"
| "planLoop rnd i (hit # hits) st = planLoop rnd (i + 1) hits (planStep rnd i hit st)"

text \<open>
  \<^verbatim>\<open>generatePlan\<close>: the first draw is the one of \<^verbatim>\<open>simulateProcessingDelay\<close>.
  Nothing in the body throws, so the session ends \<open>Completed\<close>.
\<close>

definition generatePlan :: "Random \<Rightarrow> PlanGenerator \<Rightarrow> PlanGenerator" where
  "generatePlan rnd g =
     (let st = planLoop rnd 0 (folderHits g)
                 \<lparr>rootIds = [], totalBytes = Finite 0, countDirs = 0, countFiles = 0,
                  crossVolume = 0, totalConflicts = 0, totalWarnings = 0,
                  loop_nodes = generator_nodes g, next_draw = 1\<rparr>;
          summ = \<lparr>count_dirs = countDirs st,
                  count_files = countFiles st,
                  total_bytes = Some (totalBytes st),
                  cross_volume = crossVolume st,
                  summary_conflicts = totalConflicts st,
                  summary_warnings = totalWarnings st\<rparr>;
          pl = \<lparr>roots = rootIds st, nodes = loop_nodes st, summary = summ\<rparr>
      in g\<lparr>session := (session g)\<lparr>plan_status := Completed, plan := Some pl\<rparr>,
           generator_nodes := loop_nodes st\<rparr>)"

text \<open>The plan a fresh generator produces from a hit list.\<close>

definition plan_of :: "Random \<Rightarrow> string \<Rightarrow> FolderHit list \<Rightarrow> MovePlan" where
  "plan_of rnd sessionId hits =
     the (plan (session (generatePlan rnd (new_PlanGenerator sessionId hits))))"

section \<open>FileExecutor\<close>

text \<open>
  Of \<^verbatim>\<open>Progress\<close> the fields \<^verbatim>\<open>current_speed\<close> and \<^verbatim>\<open>eta\<close> are left out:
  they are quotients of wall-clock readings.
\<close>

record Progress =
  current_item :: "string option"
  completed_ops :: int
  total_ops :: int
  bytes_processed :: number
  progress_total_bytes :: "number option"

record ExecutionSession =
  exec_session_id :: string
  plan_id :: string
  exec_status :: SessionStatus
  progress :: "Progress option"
  journal_path :: "string option"
  exec_error :: "string option"

record FileExecutor =
  exec_session :: ExecutionSession
  exec_plan :: MovePlan
  isCancelled :: bool

record Operation =
  op_path :: string
  op_size :: int

fun join :: "string list \<Rightarrow> string \<Rightarrow> string" where
  "join [] sep = []"
| "join [x] sep = x"
| "join (x # y # ys) sep = x @ sep @ join (y # ys) sep"

text \<open>
  The constructor; \<open>timestamp\<close> is \<^verbatim>\<open>new Date().toISOString()\<close>, in which
  \<^verbatim>\<open>generateJournalPath\<close> replaces every colon and full stop by a hyphen.
\<close>

definition generateJournalPath :: "string \<Rightarrow> string" where
  "generateJournalPath timestamp =
     ''C:'' @ [backslash] @ ''Users'' @ [backslash] @ ''User'' @ [backslash] @ ''AppData''
     @ [backslash] @ ''Local'' @ [backslash] @ ''FileMover'' @ [backslash] @ ''journal_''
     @ map (\<lambda>c. if c = CHR '':'' \<or> c = CHR ''.'' then CHR ''-'' else c) timestamp
     @ ''.json''"

definition new_FileExecutor :: "string \<Rightarrow> string \<Rightarrow> MovePlan \<Rightarrow> FileExecutor" where
  "new_FileExecutor timestamp sessionId pl =
     \<lparr>exec_session = \<lparr>exec_session_id = sessionId,
                       plan_id = join (roots pl) '','',
                       exec_status = Created,
                       progress = None,
                       journal_path = Some (generateJournalPath timestamp),
                       exec_error = None\<rparr>,
      exec_plan = pl,
      isCancelled = False\<rparr>"

text \<open>\<^verbatim>\<open>cancel()\<close>; \<^verbatim>\<open>progressInterval\<close> is never assigned.\<close>

definition cancel :: "FileExecutor \<Rightarrow> FileExecutor" where
  "cancel ex = ex\<lparr>isCancelled := True\<rparr>"

definition extensions :: "string list" where
  "extensions = [''.jpg'', ''.png'', ''.pdf'', ''.txt'', ''.docx'', ''.xlsx'', ''.mp4'', ''.mp3'']"

definition fileNames :: "string list" where
  "fileNames = [''index.html'', ''style.css'', ''script.js'', ''README.md'', ''package.json'']"

definition generateFileName :: "Random \<Rightarrow> nat \<Rightarrow> nat \<Rightarrow> string \<Rightarrow> string \<times> nat" where
  "generateFileName rnd k index baseName =
     (let e = \<lfloor>fl (rnd k * 8)\<rfloor>;
          extension = (if 0 \<le> e \<and> e < 8 then extensions ! nat e else ''undefined'');
          lower = toLowerCase baseName
      in (if str_includes lower ''photo'' \<or> str_includes lower ''vacation'' then
            ''IMG_'' @ padStart (toString (index + 1)) 3 (CHR ''0'') @ extension
          else if str_includes lower ''project'' \<or> str_includes lower ''code'' then
            fileNames ! (index mod 5)
          else ''file_'' @ toString (index + 1) @ extension,
          k + 1))"

text \<open>
  The inner loop of \<^verbatim>\<open>generateFileOperations\<close>, by the number of iterations left.
\<close>

fun fileLoop ::
  "Random \<Rightarrow> nat \<Rightarrow> PlanNode \<Rightarrow> int \<Rightarrow> int \<Rightarrow> nat \<Rightarrow> nat \<Rightarrow> Operation list \<times> nat" where
  "fileLoop rnd k node totalSize fileCount i 0 = ([], k)"
| "fileLoop rnd k node totalSize fileCount i (Suc n) =
     (let (fileName, k1) = generateFileName rnd k i (name_before node);
          filePath = path_before node @ [backslash] @ fileName;
          fileSize = \<lfloor>fl (fl (real_of_int totalSize / real_of_int fileCount)
                          * fl (0.5 + rnd k1))\<rfloor>;
          (rest, k2) = fileLoop rnd (k1 + 1) node totalSize fileCount (i + 1) n
      in (\<lparr>op_path = filePath, op_size = fileSize\<rparr> # rest, k2))"

fun operationsLoop :: "Random \<Rightarrow> nat \<Rightarrow> MovePlan \<Rightarrow> string list \<Rightarrow> Operation list \<times> nat" where
  "operationsLoop rnd k pl [] = ([], k)"
| "operationsLoop rnd k pl (rootId # rest) =
     (case map_of (nodes pl) rootId of
        None \<Rightarrow> operationsLoop rnd k pl rest
      | Some node \<Rightarrow>
          (let fileCount = \<lfloor>fl (rnd k * 30)\<rfloor> + 5;
               totalSize = (case truthy_number (node_size_bytes node) of
                              Some n \<Rightarrow> n | None \<Rightarrow> MiB * 50);
               (ops, k1) = fileLoop rnd (k + 1) node totalSize fileCount 0 (nat fileCount);
               (more, k2) = operationsLoop rnd k1 pl rest
           in (ops @ more, k2)))"

definition generateFileOperations :: "Random \<Rightarrow> nat \<Rightarrow> MovePlan \<Rightarrow> Operation list \<times> nat" where
  "generateFileOperations rnd k pl = operationsLoop rnd k pl (roots pl)"

definition calculateTotalOperations :: "MovePlan \<Rightarrow> int" where
  "calculateTotalOperations pl =
     max (fold (\<lambda>rootId totalOps.
                  case map_of (nodes pl) rootId of
                    Some node \<Rightarrow>
                      if kind node \<noteq> Skip \<and> kind node \<noteq> OpNone then
                        totalOps
                        + ((case truthy_number (node_size_bytes node) of
                              Some n \<Rightarrow> n | None \<Rightarrow> MiB * 10) div MiB + 5)
                      else totalOps
                  | None \<Rightarrow> totalOps)
               (roots pl) 0)
         10"

text \<open>
  The executor is suspended only in \<^verbatim>\<open>await this.delay(...)\<close>, once in every
  iteration of the loop of \<^verbatim>\<open>simulateExecution\<close>; a call of \<^verbatim>\<open>cancel()\<close> from
  the user interface runs there. A schedule tells for every iteration whether
  \<^verbatim>\<open>cancel()\<close> is called during its delay. The loop records what happens as a list of
  events, which the program itself does not keep.
\<close>

type_synonym CancelSchedule = "nat \<Rightarrow> bool"

datatype Event = OpStarted nat | OpCompleted nat | CancelSignalled

record SimState =
  sim_executor :: FileExecutor
  sim_progress :: Progress
  completedOps :: int
  processedBytes :: number
  sim_draw :: nat
  sim_trace :: "Event list"

fun simulateLoop ::
  "CancelSchedule \<Rightarrow> Random \<Rightarrow> nat \<Rightarrow> Operation list \<Rightarrow> SimState \<Rightarrow> SimState" where
  "simulateLoop cancelAt rnd i [] st = st"
| "simulateLoop cancelAt rnd i (operation # operations) st =
     (if isCancelled (sim_executor st) then st
      else
        (let st1 = st\<lparr>sim_progress := (sim_progress st)\<lparr>current_item := Some (op_path operation)\<rparr>,
                      sim_draw := sim_draw st + 1,
                      sim_trace := sim_trace st @ [OpStarted i]\<rparr>;
             st2 = (if cancelAt i
                    then st1\<lparr>sim_executor := cancel (sim_executor st1),
                             sim_trace := sim_trace st1 @ [CancelSignalled]\<rparr>
                    else st1)
         in if isCancelled (sim_executor st2) then st2
            else
              simulateLoop cancelAt rnd (i + 1) operations
                (st2\<lparr>completedOps := completedOps st2 + 1,
                     processedBytes := add_number (processedBytes st2) (op_size operation),
                     sim_progress := (sim_progress st2)
                        \<lparr>completed_ops := completedOps st2 + 1,
                         bytes_processed :=
                           add_number (processedBytes st2) (op_size operation)\<rparr>,
                     sim_draw := sim_draw st2 + 1,
                     sim_trace := sim_trace st2 @ [OpCompleted i]\<rparr>)))"

definition executeMovePlan ::
  "CancelSchedule \<Rightarrow> Random \<Rightarrow> FileExecutor \<Rightarrow> FileExecutor \<times> Event list" where
  "executeMovePlan cancelAt rnd ex =
     (let totalOps = calculateTotalOperations (exec_plan ex);
          totalBytes = (case total_bytes (summary (exec_plan ex)) of
                          Some t \<Rightarrow> if t \<noteq> Finite 0 then t else Finite 0
                        | None \<Rightarrow> Finite 0);
          p0 = \<lparr>current_item = None, completed_ops = 0, total_ops = totalOps,
                bytes_processed = Finite 0, progress_total_bytes = Some totalBytes\<rparr>;
          (operations, k) = generateFileOperations rnd 0 (exec_plan ex);
          st = simulateLoop cancelAt rnd 0 operations
                 \<lparr>sim_executor = ex\<lparr>exec_session := (exec_session ex)\<lparr>exec_status := Running\<rparr>\<rparr>,
                  sim_progress = p0, completedOps = 0, processedBytes = Finite 0,
                  sim_draw = k, sim_trace = []\<rparr>;
          ex' = sim_executor st
      in if isCancelled ex' then
           (ex'\<lparr>exec_session := (exec_session ex')
                   \<lparr>exec_status := Cancelled, progress := Some (sim_progress st)\<rparr>\<rparr>,
            sim_trace st)
         else
           (ex'\<lparr>exec_session := (exec_session ex')
                   \<lparr>exec_status := Completed,
                    progress := Some ((sim_progress st)
                      \<lparr>completed_ops := totalOps,
                       bytes_processed := totalBytes,
                       current_item := None\<rparr>)\<rparr>\<rparr>,
            sim_trace st))"

section \<open>Derived notions used in the statements\<close>


text \<open>The size of a hit, an absent size counted as zero.\<close>

definition hit_size :: "FolderHit \<Rightarrow> int" where
  "hit_size hit = (case size_bytes hit of Some n \<Rightarrow> n | None \<Rightarrow> 0)"

text \<open>The identifier \<^verbatim>\<open>`node_${i}`\<close> of the node made from the hit at position \<open>i\<close>.\<close>

definition nodeId_of :: "nat \<Rightarrow> string" where
  "nodeId_of i = ''node_'' @ toString i"

text \<open>
  The part of a plan that no draw of \<^verbatim>\<open>Math.random()\<close> reaches: every field of a
  node except \<open>kind\<close> and \<open>conflicts\<close>, and every field of the summary except
  \<open>count_files\<close> and \<open>conflicts\<close>. The same for the local variables of the loop.
\<close>

definition stable_node :: "PlanNode \<Rightarrow> PlanNode" where
  "stable_node n = n\<lparr>kind := OpNone, conflicts := []\<rparr>"

definition stable_summary :: "PlanSummary \<Rightarrow> PlanSummary" where
  "stable_summary s = s\<lparr>count_files := 0, summary_conflicts := 0\<rparr>"

definition stable_plan :: "MovePlan \<Rightarrow> MovePlan" where
  "stable_plan pl =
     \<lparr>roots = roots pl,
      nodes = map (apsnd stable_node) (nodes pl),
      summary = stable_summary (summary pl)\<rparr>"

definition stable_loop :: "PlanLoop \<Rightarrow> PlanLoop" where
  "stable_loop st =
     st\<lparr>countFiles := 0, totalConflicts := 0, next_draw := 0,
        loop_nodes := map (apsnd stable_node) (loop_nodes st)\<rparr>"



text \<open>
  The notions of the specification for the kind of an operation. The volume of a path is its
  drive, named by the letter before the colon with letter case ignored, or its network share,
  named by the server and the share after the two leading backslashes, letter case ignored;
  any other path has no volume. The parent directory is the path without its last component,
  the components being the pieces between the backslashes, and the final component is the
  last piece. Two directories are the same when their paths are equal up to letter case, as
  Windows has it.
\<close>

datatype Volume = Drive char | Share "string list"


definition volumeOf :: "string \<Rightarrow> Volume option" where
  "volumeOf p =
     (case p of
        c # d # rest \<Rightarrow>
          if asciiLetter c \<and> d = CHR '':'' then Some (Drive (toLowerCase_char c))
          else if c = backslash \<and> d = backslash
          then Some (Share (map toLowerCase (take 2 (split rest backslash))))
          else None
      | _ \<Rightarrow> None)"




text \<open>
  The substitution of a token as the specification means it: the first occurrence of the
  token is replaced by a text, which is taken literally, and a string without the token is
  left as it is.
\<close>

fun replaceFirst :: "string \<Rightarrow> string \<Rightarrow> string \<Rightarrow> string" where
  "replaceFirst token text [] = (if token = [] then text else [])"
| "replaceFirst token text (c # s) =
     (if prefix token (c # s) then text @ drop (length token) (c # s)
      else c # replaceFirst token text s)"

text \<open>
  The relation the conflict \<open>DestInsideSource\<close> is named after: \<open>child\<close> is a
  descendant of \<open>ancestor\<close> when it continues the path of \<open>ancestor\<close> after a
  backslash, letter case ignored as Windows does. The program has no function for it.
\<close>

definition isDescendant :: "string \<Rightarrow> string \<Rightarrow> bool" where
  "isDescendant child ancestor =
     (prefix (toLowerCase ancestor @ [backslash]) (toLowerCase child)
      \<and> length ancestor + 1 < length child)"

text \<open>
  A list of events in which the cancellation is signalled once, as the last event.
\<close>

definition ends_with_cancel :: "Event list \<Rightarrow> bool" where
  "ends_with_cancel new =
     (new \<noteq> [] \<and> last new = CancelSignalled \<and> CancelSignalled \<notin> set (butlast new))"

section \<open>Example inputs\<close>

text \<open>
  The examples use no rule of kind \<open>Regex\<close>; their engine rejects every expression.
\<close>

definition no_regexp :: RegExp where
  "no_regexp source ignoreCase text = None"

text \<open>
  Rules that look for \<open>rep\<close> (or \<open>cache\<close>) in the folder name and send the folder to
  \<^verbatim>\<open>C:\out\<close>: two inclusive rules that differ in id and priority, an exclusion rule, a
  rule with a label, and rules with other templates.
\<close>

definition rule_a :: Rule where
  "rule_a = \<lparr>rule_id = ''a'', enabled = True,
             pattern = \<lparr>pattern_kind = Contains, pattern_value = ''rep'',
                        is_exclude = False, case_insensitive = False\<rparr>,
             dest_root = join [''C:'', ''out''] [backslash], template = ''{name}'',
             policy = AutoRename, label = None, priority = 5\<rparr>"



definition rule_cache :: Rule where
  "rule_cache = rule_a\<lparr>rule_id := ''c'', label := Some ''Caches'',
                        pattern := (pattern rule_a)\<lparr>pattern_value := ''cache''\<rparr>\<rparr>"

definition rule_yyyy :: Rule where
  "rule_yyyy = rule_a\<lparr>template := ''{yyyy}'' @ [backslash] @ ''{name}''\<rparr>"

definition rule_label :: Rule where
  "rule_label = rule_cache\<lparr>template := ''{label}_{parent}''\<rparr>"

definition rule_year_name :: Rule where
  "rule_year_name = rule_a\<lparr>template := ''{year}'' @ [backslash] @ ''{name}''\<rparr>"

definition rule_date :: Rule where
  "rule_date = rule_a\<lparr>template := ''{year}'' @ [backslash] @ ''{month}-{day}''\<rparr>"

text \<open>A folder and a date for the expansion of templates.\<close>

definition folder_report :: Folder where
  "folder_report = \<lparr>folder_path = join [''C:'', ''src'', ''report_q1''] [backslash],
                    folder_name = ''report_q1'', folder_size = 0\<rparr>"

definition today :: LocalDate where
  "today = \<lparr>getFullYear = 2026, getMonth = 10, getDate = 2\<rparr>"

text \<open>
  Sequences of draws: constant ones, and one that is \<open>1/2\<close> except for the fourth draw,
  which is \<open>1/10\<close>.
\<close>

definition draws_high :: Random where
  "draws_high k = 1 / 2"

definition draws_low :: Random where
  "draws_low k = 1 / 10"

definition draws_zero :: Random where
  "draws_zero k = 0"


text \<open>
  Hits: a move within \<^verbatim>\<open>C:\<close>, a move into the folder's own subtree, a move from
  \<^verbatim>\<open>D:\<close> to \<^verbatim>\<open>E:\<close>, and a rename within one directory.
\<close>

definition hit_move :: FolderHit where
  "hit_move = \<lparr>path = join [''C:'', ''src'', ''report_q1''] [backslash],
               name = ''report_q1'',
               matched_rule = Some ''a'',
               dest_preview = Some (join [''C:'', ''out'', ''report_q1''] [backslash]),
               warnings = [],
               size_bytes = Some (MiB * 5)\<rparr>"

definition hit_inside :: FolderHit where
  "hit_inside = \<lparr>path = join [''C:'', ''A''] [backslash],
                 name = ''A'',
                 matched_rule = Some ''a'',
                 dest_preview = Some (join [''C:'', ''A'', ''sub'', ''A''] [backslash]),
                 warnings = [],
                 size_bytes = None\<rparr>"


definition hit_rename :: FolderHit where
  "hit_rename = \<lparr>path = join [''C:'', ''src'', ''old''] [backslash],
                 name = ''old'',
                 matched_rule = Some ''a'',
                 dest_preview = Some (join [''c:'', ''SRC'', ''new''] [backslash]),
                 warnings = [],
                 size_bytes = Some 5\<rparr>"

text \<open>
  A hit moved from the share \<^verbatim>\<open>\\srv1\share\<close> to the share \<^verbatim>\<open>\\srv2\other\<close>.
\<close>

definition hit_unc :: FolderHit where
  "hit_unc = \<lparr>path = [backslash, backslash] @ join [''srv1'', ''share'', ''a''] [backslash],
              name = ''a'',
              matched_rule = Some ''a'',
              dest_preview =
                Some ([backslash, backslash] @ join [''srv2'', ''other'', ''a''] [backslash]),
              warnings = [],
              size_bytes = Some 5\<rparr>"

text \<open>
  Two hits whose sizes are \<open>2 ^ 53\<close> bytes and one byte.
\<close>

definition hit_huge :: FolderHit where
  "hit_huge = \<lparr>path = join [''D:'', ''vault''] [backslash],
               name = ''vault'',
               matched_rule = Some ''a'',
               dest_preview = Some (join [''C:'', ''out'', ''vault''] [backslash]),
               warnings = [],
               size_bytes = Some 9007199254740992\<rparr>"

definition hit_one :: FolderHit where
  "hit_one = \<lparr>path = join [''D:'', ''note''] [backslash],
              name = ''note'',
              matched_rule = Some ''a'',
              dest_preview = Some (join [''C:'', ''out'', ''note''] [backslash]),
              warnings = [],
              size_bytes = Some 1\<rparr>"

text \<open>
  An executor for the plan of one hit, and a schedule that calls \<^verbatim>\<open>cancel()\<close> during
  the delay of the third operation.
\<close>

definition executor_example :: FileExecutor where
  "executor_example =
     new_FileExecutor ''2026-11-02T12:00:00.000Z'' ''exec''
       (plan_of draws_high ''plan'' [hit_move])"

definition cancel_third :: CancelSchedule where
  "cancel_third i = (i = 2)"

section \<open>The matcher\<close>


lemma matchesPattern_enabled_update [simp]:
  "matchesPattern rx text (rule\<lparr>enabled := b\<rparr>) = matchesPattern rx text rule"
  by (simp add: matchesPattern_def)






lemma disable_keeps_None:
  "findMatchingRule rx rules n = None \<Longrightarrow>
   findMatchingRule rx
     (map (\<lambda>(i, rule). if i = index then rule\<lparr>enabled := False\<rparr> else rule) (enumerate k rules)) n
   = None"
  by (induction rules arbitrary: k) (auto split: if_splits)

lemma length_filter_mono:
  "(\<And>x. x \<in> set xs \<Longrightarrow> P x \<Longrightarrow> Q x) \<Longrightarrow> length (filter P xs) \<le> length (filter Q xs)"
  by (induction xs) auto

text \<open>
  Claim C9. Disabling the rule at any position, as the setup page does, cannot increase the
  number of folder names for which the matcher returns a rule.
\<close>

theorem disabling_rule_is_monotone:
  "length (filter (\<lambda>n. findMatchingRule rx (updateRule_enabled index False rules) n \<noteq> None) names)
   \<le> length (filter (\<lambda>n. findMatchingRule rx rules n \<noteq> None) names)"
proof (rule length_filter_mono)
  fix n
  assume *: "findMatchingRule rx (updateRule_enabled index False rules) n \<noteq> None"
  show "findMatchingRule rx rules n \<noteq> None"
  proof
    assume "findMatchingRule rx rules n = None"
    then have "findMatchingRule rx (updateRule_enabled index False rules) n = None"
      unfolding updateRule_enabled_def by (rule disable_keeps_None)
    with * show False by contradiction
  qed
qed

section \<open>The planner: summary and determinism\<close>

lemma toString_nonempty: "toString n \<noteq> []"
  by (subst toString.simps) simp

lemma digit_char_inj: "a < 10 \<Longrightarrow> b < 10 \<Longrightarrow> digit_char a = digit_char b \<Longrightarrow> a = b"
proof -
  assume a: "a < 10" and b: "b < 10" and e: "digit_char a = digit_char b"
  have d: "distinct ''0123456789''" by simp
  have "length ''0123456789'' = 10" by simp
  with a b e d show "a = b"
    unfolding digit_char_def by (metis nth_eq_iff_index_eq)
qed

lemma toString_inj: "toString n = toString m \<Longrightarrow> n = m"
proof (induction n arbitrary: m rule: toString.induct)
  case (1 n)
  show ?case
  proof (cases "n < 10")
    case small_n: True
    then have n: "toString n = [digit_char n]" by (subst toString.simps) simp
    show ?thesis
    proof (cases "m < 10")
      case True
      then have "toString m = [digit_char m]" by (subst toString.simps) simp
      with n "1.prems" small_n True show ?thesis by (auto dest: digit_char_inj)
    next
      case False
      then have "toString m = toString (m div 10) @ [digit_char (m mod 10)]"
        by (subst toString.simps) simp
      with n "1.prems" toString_nonempty [of "m div 10"] show ?thesis
        by (cases "toString (m div 10)") auto
    qed
  next
    case big_n: False
    then have n: "toString n = toString (n div 10) @ [digit_char (n mod 10)]"
      by (subst toString.simps) simp
    show ?thesis
    proof (cases "m < 10")
      case True
      then have "toString m = [digit_char m]" by (subst toString.simps) simp
      with n "1.prems" toString_nonempty [of "n div 10"] show ?thesis
        by (cases "toString (n div 10)") auto
    next
      case False
      then have "toString m = toString (m div 10) @ [digit_char (m mod 10)]"
        by (subst toString.simps) simp
      with n "1.prems" have e: "toString (n div 10) = toString (m div 10)"
        and d: "digit_char (n mod 10) = digit_char (m mod 10)" by auto
      from "1.IH" [OF big_n e] have "n div 10 = m div 10" .
      moreover have "n mod 10 = m mod 10"
        using digit_char_inj [of "n mod 10" "m mod 10"] d by simp
      ultimately show ?thesis by (metis div_mult_mod_eq)
    qed
  qed
qed

lemma nodeId_of_inj [simp]: "nodeId_of i = nodeId_of j \<longleftrightarrow> i = j"
  by (auto simp: nodeId_of_def dest: toString_inj)

lemma set_property_fresh:
  "key \<notin> fst ` set ps \<Longrightarrow> set_property key v ps = ps @ [(key, v)]"
  by (induction ps) auto

lemma planStep_fields:
  "rootIds (planStep rnd i hit st) = rootIds st @ [nodeId_of i]"
  "countDirs (planStep rnd i hit st) = countDirs st + 1"
  "totalBytes (planStep rnd i hit st)
     = (if hit_size hit = 0 then totalBytes st else add_number (totalBytes st) (hit_size hit))"
  "totalWarnings (planStep rnd i hit st) = totalWarnings st + length (warnings hit)"
  by (auto simp: planStep_def nodeId_of_def hit_size_def truthy_number_def Let_def
           split: prod.splits option.splits)

lemma planStep_nodes:
  "\<exists>node. loop_nodes (planStep rnd i hit st) = set_property (nodeId_of i) node (loop_nodes st)
     \<and> totalConflicts (planStep rnd i hit st) = totalConflicts st + length (conflicts node)
     \<and> node_warnings node = warnings hit
     \<and> path_before node = path hit
     \<and> node_id node = nodeId_of i"
  by (auto simp: planStep_def nodeId_of_def Let_def split: prod.splits)

lemma upt_shift: "[i ..< i + length (x # xs)] = i # [Suc i ..< Suc i + length xs]"
  by (subst upt_rec) simp

lemma planLoop_simple:
  "rootIds (planLoop rnd i hits st) = rootIds st @ map nodeId_of [i ..< i + length hits]
   \<and> countDirs (planLoop rnd i hits st) = countDirs st + length hits
   \<and> totalBytes (planLoop rnd i hits st)
       = foldl add_number (totalBytes st) (filter (\<lambda>n. n \<noteq> 0) (map hit_size hits))
   \<and> totalWarnings (planLoop rnd i hits st)
       = totalWarnings st + sum_list (map (\<lambda>h. length (warnings h)) hits)"
proof (induction hits arbitrary: i st)
  case Nil
  then show ?case by simp
next
  case (Cons hit hits)
  with upt_shift [of i hit hits] Cons [of "Suc i" "planStep rnd i hit st"] show ?case
    by (simp add: planStep_fields)
qed

lemma planLoop_nodes:
  assumes "\<forall>j \<ge> i. nodeId_of j \<notin> fst ` set (loop_nodes st)"
  shows "\<exists>new. loop_nodes (planLoop rnd i hits st) = loop_nodes st @ new
     \<and> map fst new = map nodeId_of [i ..< i + length hits]
     \<and> map (node_id \<circ> snd) new = map nodeId_of [i ..< i + length hits]
     \<and> map (path_before \<circ> snd) new = map path hits
     \<and> map (node_warnings \<circ> snd) new = map warnings hits
     \<and> totalConflicts (planLoop rnd i hits st)
         = totalConflicts st + sum_list (map (\<lambda>p. length (conflicts (snd p))) new)"
  using assms
proof (induction hits arbitrary: i st)
  case Nil
  then show ?case by simp
next
  case (Cons hit hits)
  obtain node where node:
    "loop_nodes (planStep rnd i hit st) = set_property (nodeId_of i) node (loop_nodes st)"
    "totalConflicts (planStep rnd i hit st) = totalConflicts st + length (conflicts node)"
    "node_warnings node = warnings hit" "path_before node = path hit"
    "node_id node = nodeId_of i"
    using planStep_nodes by blast
  from Cons.prems have fresh: "nodeId_of i \<notin> fst ` set (loop_nodes st)" by simp
  with node have nodes1:
    "loop_nodes (planStep rnd i hit st) = loop_nodes st @ [(nodeId_of i, node)]"
    by (simp add: set_property_fresh)
  have "\<forall>j \<ge> Suc i. nodeId_of j \<notin> fst ` set (loop_nodes (planStep rnd i hit st))"
    using Cons.prems nodes1 by auto
  from Cons.IH [OF this] obtain new where new:
    "loop_nodes (planLoop rnd (Suc i) hits (planStep rnd i hit st))
       = loop_nodes (planStep rnd i hit st) @ new"
    "map fst new = map nodeId_of [Suc i ..< Suc i + length hits]"
    "map (node_id \<circ> snd) new = map nodeId_of [Suc i ..< Suc i + length hits]"
    "map (path_before \<circ> snd) new = map path hits"
    "map (node_warnings \<circ> snd) new = map warnings hits"
    "totalConflicts (planLoop rnd (Suc i) hits (planStep rnd i hit st))
       = totalConflicts (planStep rnd i hit st)
         + sum_list (map (\<lambda>p. length (conflicts (snd p))) new)"
    by blast
  let ?new = "(nodeId_of i, node) # new"
  have "loop_nodes (planLoop rnd i (hit # hits) st) = loop_nodes st @ ?new"
    using new(1) nodes1 by simp
  moreover have "map fst ?new = map nodeId_of [i ..< i + length (hit # hits)]"
    using new(2) upt_shift [of i hit hits] by simp
  moreover have "map (node_id \<circ> snd) ?new = map nodeId_of [i ..< i + length (hit # hits)]"
    using new(3) node upt_shift [of i hit hits] by simp
  moreover have "map (path_before \<circ> snd) ?new = map path (hit # hits)"
    using new(4) node by simp
  moreover have "map (node_warnings \<circ> snd) ?new = map warnings (hit # hits)"
    using new(5) node by simp
  moreover have "totalConflicts (planLoop rnd i (hit # hits) st)
         = totalConflicts st + sum_list (map (\<lambda>p. length (conflicts (snd p))) ?new)"
    using new(6) node by simp
  ultimately show ?case by blast
qed

lemma generatePlan_plan:
  "plan (session (generatePlan rnd g)) \<noteq> None
   \<and> plan_status (session (generatePlan rnd g)) = Completed"
  by (simp add: generatePlan_def Let_def)

lemma distinct_nodeIds: "distinct (map nodeId_of [i ..< j])"
  by (simp add: distinct_map inj_on_def)

text \<open>
  Doubles at work: \<^verbatim>\<open>0.1 + 0.2\<close> is \<open>0.30000000000000004\<close> and not the double of
  \<^verbatim>\<open>0.3\<close>; \<open>2 ^ 53 + 1\<close> lies halfway between two doubles and goes to the even one;
  and for a hit of \<open>10 ^ 9\<close> bytes and a draw of \<open>1/2\<close> the simulated free space
  \<^verbatim>\<open>Math.floor(required * (0.7 + 0.5 * 0.2))\<close> is \<open>799999999\<close> bytes.
\<close>

lemma fl_examples:
  "fl (fl 0.1 + fl 0.2) = 5404319552844596 / 2 ^ 54
   \<and> fl 0.3 = 5404319552844595 / 2 ^ 54
   \<and> round_number (2 ^ 53 + 1) = Finite (2 ^ 53)
   \<and> round_number (2 ^ 53 + 3) = Finite (2 ^ 53 + 4)
   \<and> \<lfloor>fl (1000000000 * fl (fl 0.7 + fl (0.5 * fl 0.2)))\<rfloor> = 799999999"
  by code_simp

lemma round_number_exact: "\<bar>x\<bar> \<le> 2 ^ 53 \<Longrightarrow> round_number x = Finite x"
  by (simp add: round_number_def)

lemma foldl_add_number_exact:
  "\<bar>a\<bar> + sum_list (map abs ns) \<le> 2 ^ 53 \<Longrightarrow>
   foldl add_number (Finite a) (filter (\<lambda>n. n \<noteq> 0) ns) = Finite (a + sum_list ns)"
proof (induction ns arbitrary: a)
  case Nil
  then show ?case by simp
next
  case (Cons n ns)
  have nonneg: "0 \<le> sum_list (map abs ns)" by (rule sum_list_nonneg) auto
  from Cons.prems have step: "\<bar>a + n\<bar> + sum_list (map abs ns) \<le> 2 ^ 53" by simp
  with nonneg have "\<bar>a + n\<bar> \<le> 2 ^ 53" by linarith
  then have r: "round_number (a + n) = Finite (a + n)" by (rule round_number_exact)
  from Cons.IH [OF step] r show ?case by (cases "n = 0") (simp_all add: add.assoc)
qed

text \<open>
  The total the program computes: the non-zero sizes are added in the order of the hits,
  every sum rounded to the nearest double.
\<close>

lemma total_bytes_running_sum:
  "total_bytes (summary (plan_of rnd sessionId hits))
     = Some (foldl add_number (Finite 0) (filter (\<lambda>n. n \<noteq> 0) (map hit_size hits)))"
proof -
  let ?init = "\<lparr>rootIds = [], totalBytes = Finite 0, countDirs = 0, countFiles = 0,
               crossVolume = 0, totalConflicts = 0, totalWarnings = 0,
               loop_nodes = [], next_draw = 1\<rparr>"
  have "totalBytes (planLoop rnd 0 hits ?init)
          = foldl add_number (Finite 0) (filter (\<lambda>n. n \<noteq> 0) (map hit_size hits))"
    using planLoop_simple [of rnd 0 hits ?init] by simp
  then show ?thesis
    by (simp add: plan_of_def generatePlan_def new_PlanGenerator_def Let_def)
qed

text \<open>
  Claim C10, as the program has it. The plan a fresh generator produces has one root id and one
  node for every input hit, in order and without repetition, and its summary counts the hits
  and adds up the lengths of the nodes' conflict lists and of their warning lists. The sizes
  are added as doubles: when the magnitudes of the sizes add up to at most \<open>2 ^ 53\<close>, the
  total is the sum of the sizes of the hits, an absent size counted as zero.
\<close>

theorem generatePlan_summary:
  "plan (session (generatePlan rnd (new_PlanGenerator sessionId hits)))
     = Some (plan_of rnd sessionId hits)
   \<and> count_dirs (summary (plan_of rnd sessionId hits)) = length hits
   \<and> roots (plan_of rnd sessionId hits) = map nodeId_of [0 ..< length hits]
   \<and> distinct (roots (plan_of rnd sessionId hits))
   \<and> map fst (nodes (plan_of rnd sessionId hits)) = roots (plan_of rnd sessionId hits)
   \<and> map (node_id \<circ> snd) (nodes (plan_of rnd sessionId hits))
       = roots (plan_of rnd sessionId hits)
   \<and> map (path_before \<circ> snd) (nodes (plan_of rnd sessionId hits)) = map path hits
   \<and> summary_conflicts (summary (plan_of rnd sessionId hits))
       = sum_list (map (\<lambda>p. length (conflicts (snd p))) (nodes (plan_of rnd sessionId hits)))
   \<and> summary_warnings (summary (plan_of rnd sessionId hits))
       = sum_list (map (\<lambda>p. length (node_warnings (snd p)))
                       (nodes (plan_of rnd sessionId hits)))
   \<and> (sum_list (map (\<lambda>h. \<bar>hit_size h\<bar>) hits) \<le> 2 ^ 53 \<longrightarrow>
        total_bytes (summary (plan_of rnd sessionId hits))
          = Some (Finite (sum_list (map hit_size hits))))"
proof -
  let ?init = "\<lparr>rootIds = [], totalBytes = Finite 0, countDirs = 0, countFiles = 0,
               crossVolume = 0, totalConflicts = 0, totalWarnings = 0,
               loop_nodes = [], next_draw = 1\<rparr>"
  let ?st = "planLoop rnd 0 hits ?init"
  let ?pl = "plan_of rnd sessionId hits"
  have pl: "?pl = \<lparr>roots = rootIds ?st, nodes = loop_nodes ?st,
                   summary = \<lparr>count_dirs = countDirs ?st,
                              count_files = countFiles ?st,
                              total_bytes = Some (totalBytes ?st),
                              cross_volume = crossVolume ?st,
                              summary_conflicts = totalConflicts ?st,
                              summary_warnings = totalWarnings ?st\<rparr>\<rparr>"
    by (simp add: plan_of_def generatePlan_def new_PlanGenerator_def Let_def)
  have some: "plan (session (generatePlan rnd (new_PlanGenerator sessionId hits))) = Some ?pl"
    using generatePlan_plan [of rnd "new_PlanGenerator sessionId hits"]
    by (auto simp: plan_of_def)
  have simple: "rootIds ?st = map nodeId_of [0 ..< length hits]"
    "countDirs ?st = length hits"
    "totalBytes ?st = foldl add_number (Finite 0) (filter (\<lambda>n. n \<noteq> 0) (map hit_size hits))"
    "totalWarnings ?st = sum_list (map (\<lambda>h. length (warnings h)) hits)"
    using planLoop_simple [of rnd 0 hits ?init] by simp_all
  have total: "totalBytes ?st = Finite (sum_list (map hit_size hits))"
    if "sum_list (map (\<lambda>h. \<bar>hit_size h\<bar>) hits) \<le> 2 ^ 53"
  proof -
    have "map abs (map hit_size hits) = map (\<lambda>h. \<bar>hit_size h\<bar>) hits" by simp
    with that have "sum_list (map abs (map hit_size hits)) \<le> 2 ^ 53" by (simp only:)
    then have "\<bar>0\<bar> + sum_list (map abs (map hit_size hits)) \<le> 2 ^ 53" by (simp del: map_map)
    from foldl_add_number_exact [OF this] simple(3) show ?thesis by simp
  qed
  have "\<forall>j \<ge> 0. nodeId_of j \<notin> fst ` set (loop_nodes ?init)" by simp
  from planLoop_nodes [OF this, of rnd hits] obtain new where new:
    "loop_nodes ?st = new"
    "map fst new = map nodeId_of [0 ..< length hits]"
    "map (node_id \<circ> snd) new = map nodeId_of [0 ..< length hits]"
    "map (path_before \<circ> snd) new = map path hits"
    "map (node_warnings \<circ> snd) new = map warnings hits"
    "totalConflicts ?st = sum_list (map (\<lambda>p. length (conflicts (snd p))) new)"
    by auto
  have e1: "map (\<lambda>p. length (node_warnings (snd p))) new
            = map length (map (node_warnings \<circ> snd) new)" by simp
  have e2: "map (\<lambda>h. length (warnings h)) hits = map length (map warnings hits)" by simp
  have warn: "sum_list (map (\<lambda>p. length (node_warnings (snd p))) new)
        = sum_list (map (\<lambda>h. length (warnings h)) hits)"
    by (simp only: e1 e2 new(5))
  show ?thesis
    using some simple(1,2,4) total new warn distinct_nodeIds [of 0 "length hits"]
    by (simp add: pl)
qed

text \<open>
  The theorem at two hits of 5 MiB and of 5 bytes, with every draw \<open>1/2\<close>.
\<close>

theorem generatePlan_summary_witness:
  "sum_list (map (\<lambda>h. \<bar>hit_size h\<bar>) [hit_move, hit_rename]) \<le> 2 ^ 53
   \<and> total_bytes (summary (plan_of draws_high ''s'' [hit_move, hit_rename]))
       = Some (Finite 5242885)"
proof -
  have b: "sum_list (map (\<lambda>h. \<bar>hit_size h\<bar>) [hit_move, hit_rename]) \<le> 2 ^ 53"
    by code_simp
  have s: "sum_list (map hit_size [hit_move, hit_rename]) = 5242885" by code_simp
  from generatePlan_summary [of draws_high "''s''" "[hit_move, hit_rename]"] b s
  show ?thesis by simp
qed

text \<open>
  Claim C10 as stated fails in its last part: for a hit of \<open>2 ^ 53\<close> bytes followed by a
  hit of one byte, the total of the summary is \<open>2 ^ 53\<close>, one less than the sum of the
  sizes, because \<open>2 ^ 53 + 1\<close> is not a double.
\<close>

theorem generatePlan_total_bytes_counterexample:
  "total_bytes (summary (plan_of draws_high ''s'' [hit_huge, hit_one]))
     = Some (Finite 9007199254740992)
   \<and> sum_list (map hit_size [hit_huge, hit_one]) = 9007199254740993"
  by code_simp

lemma stable_loop_eq_iff:
  "stable_loop s1 = stable_loop s2 \<longleftrightarrow>
     rootIds s1 = rootIds s2 \<and> totalBytes s1 = totalBytes s2 \<and> countDirs s1 = countDirs s2
     \<and> crossVolume s1 = crossVolume s2 \<and> totalWarnings s1 = totalWarnings s2
     \<and> map (apsnd stable_node) (loop_nodes s1) = map (apsnd stable_node) (loop_nodes s2)"
  by (cases s1; cases s2) (auto simp: stable_loop_def)

lemma set_property_stable:
  "map (apsnd f) ps1 = map (apsnd f) ps2 \<Longrightarrow> f n1 = f n2 \<Longrightarrow>
   map (apsnd f) (set_property key n1 ps1) = map (apsnd f) (set_property key n2 ps2)"
proof (induction ps1 arbitrary: ps2)
  case Nil
  then show ?case by simp
next
  case (Cons p ps1)
  then obtain q qs where ps2: "ps2 = q # qs" by (cases ps2) auto
  with Cons.prems have "fst p = fst q" "apsnd f p = apsnd f q"
    "map (apsnd f) ps1 = map (apsnd f) qs"
    by (auto simp: apsnd_def map_prod_def split: prod.splits)
  with Cons.IH [of qs] Cons.prems(2) ps2 show ?case
    by (cases p; cases q) auto
qed

lemma planStep_eq:
  assumes "analyzeConflicts rnd (next_draw st) hit = (cs, k1)"
    and "determineOperationKind rnd (k1 + 1) hit = (opKind, k2)"
  shows "planStep rnd i hit st =
     \<lparr>rootIds = rootIds st @ [nodeId_of i],
      totalBytes = (case truthy_number (size_bytes hit) of
                      Some n \<Rightarrow> add_number (totalBytes st) n
                    | None \<Rightarrow> totalBytes st),
      countDirs = countDirs st + 1,
      countFiles = countFiles st + (\<lfloor>fl (rnd k1 * 50)\<rfloor> + 10),
      crossVolume = crossVolume st
        + (case truthy_string (dest_preview hit) of
             Some d \<Rightarrow> if isCrossVolume (path hit) d then 1 else 0
           | None \<Rightarrow> 0),
      totalConflicts = totalConflicts st + length cs,
      totalWarnings = totalWarnings st + length (warnings hit),
      loop_nodes = set_property (nodeId_of i)
        \<lparr>node_id = nodeId_of i, is_dir = True, name_before = name hit,
         path_before = path hit, name_after = name hit,
         path_after = (case truthy_string (dest_preview hit) of
                         Some d \<Rightarrow> d | None \<Rightarrow> path hit),
         kind = opKind, node_size_bytes = size_bytes hit,
         node_warnings = warnings hit, conflicts = cs, children = [],
         node_rule_id = matched_rule hit\<rparr>
        (loop_nodes st),
      next_draw = k2\<rparr>"
  using assms by (simp add: planStep_def Let_def nodeId_of_def split: option.splits)

lemma planStep_stable:
  assumes "stable_loop s1 = stable_loop s2"
  shows "stable_loop (planStep rnd1 i hit s1) = stable_loop (planStep rnd2 i hit s2)"
proof -
  from assms have eq: "rootIds s1 = rootIds s2" "totalBytes s1 = totalBytes s2"
    "countDirs s1 = countDirs s2" "crossVolume s1 = crossVolume s2"
    "totalWarnings s1 = totalWarnings s2"
    "map (apsnd stable_node) (loop_nodes s1) = map (apsnd stable_node) (loop_nodes s2)"
    by (simp_all add: stable_loop_eq_iff)
  obtain cs1 k1 where a1: "analyzeConflicts rnd1 (next_draw s1) hit = (cs1, k1)" by force
  obtain cs2 k2 where a2: "analyzeConflicts rnd2 (next_draw s2) hit = (cs2, k2)" by force
  obtain o1 j1 where d1: "determineOperationKind rnd1 (k1 + 1) hit = (o1, j1)" by force
  obtain o2 j2 where d2: "determineOperationKind rnd2 (k2 + 1) hit = (o2, j2)" by force
  note p1 = planStep_eq [OF a1 d1, of i] and p2 = planStep_eq [OF a2 d2, of i]
  have "rootIds (planStep rnd1 i hit s1) = rootIds (planStep rnd2 i hit s2)"
    by (simp add: p1 p2 eq)
  moreover have "totalBytes (planStep rnd1 i hit s1) = totalBytes (planStep rnd2 i hit s2)"
    by (simp add: p1 p2 eq split: option.splits)
  moreover have "countDirs (planStep rnd1 i hit s1) = countDirs (planStep rnd2 i hit s2)"
    by (simp add: p1 p2 eq)
  moreover have "crossVolume (planStep rnd1 i hit s1) = crossVolume (planStep rnd2 i hit s2)"
    by (simp add: p1 p2 eq)
  moreover have "totalWarnings (planStep rnd1 i hit s1) = totalWarnings (planStep rnd2 i hit s2)"
    by (simp add: p1 p2 eq)
  moreover have "map (apsnd stable_node) (loop_nodes (planStep rnd1 i hit s1))
      = map (apsnd stable_node) (loop_nodes (planStep rnd2 i hit s2))"
    unfolding p1 p2 PlanLoop.simps
    by (rule set_property_stable [OF eq(6)]) (simp add: stable_node_def)
  ultimately show ?thesis
    by (simp only: stable_loop_eq_iff)
qed

lemma planLoop_stable:
  "stable_loop s1 = stable_loop s2 \<Longrightarrow>
   stable_loop (planLoop rnd1 i hits s1) = stable_loop (planLoop rnd2 i hits s2)"
proof (induction hits arbitrary: i s1 s2)
  case Nil
  then show ?case by simp
next
  case (Cons hit hits)
  from Cons.prems have "stable_loop (planStep rnd1 i hit s1) = stable_loop (planStep rnd2 i hit s2)"
    by (rule planStep_stable)
  then show ?case by (simp add: Cons.IH)
qed

text \<open>
  Claim C6, as the program has it. The planner draws from \<^verbatim>\<open>Math.random()\<close>, and
  takes no rule set. Any two runs on the same hit list, whatever their draws, agree on the
  root ids, on every field of every node except \<open>kind\<close> and \<open>conflicts\<close>, and on every
  field of the summary except \<open>count_files\<close> and \<open>conflicts\<close>.
\<close>

theorem generatePlan_stable_part:
  "stable_plan (plan_of rnd1 sessionId1 hits) = stable_plan (plan_of rnd2 sessionId2 hits)"
proof -
  let ?init = "\<lparr>rootIds = [], totalBytes = Finite 0, countDirs = 0, countFiles = 0,
               crossVolume = 0, totalConflicts = 0, totalWarnings = 0,
               loop_nodes = [], next_draw = 1\<rparr>"
  have "stable_loop (planLoop rnd1 0 hits ?init) = stable_loop (planLoop rnd2 0 hits ?init)"
    by (rule planLoop_stable) simp
  then show ?thesis
    by (simp add: stable_loop_eq_iff stable_plan_def stable_summary_def plan_of_def
        generatePlan_def new_PlanGenerator_def Let_def)
qed

text \<open>
  Claim C6 as stated fails: on the same one-hit list, a run whose draws are all \<open>1/2\<close>
  plans a \<open>Move\<close> without conflicts, and a run whose draws are all \<open>1/10\<close> reports a
  simulated name conflict and plans a \<open>Skip\<close>.
\<close>

theorem generatePlan_determinism_counterexample:
  "plan_of draws_high ''s'' [hit_move] \<noteq> plan_of draws_low ''s'' [hit_move]
   \<and> map (conflicts \<circ> snd) (nodes (plan_of draws_high ''s'' [hit_move])) = [[]]
   \<and> map (kind \<circ> snd) (nodes (plan_of draws_high ''s'' [hit_move])) = [Move]
   \<and> map (kind \<circ> snd) (nodes (plan_of draws_low ''s'' [hit_move])) = [Skip]
   \<and> summary_conflicts (summary (plan_of draws_high ''s'' [hit_move])) = 0
   \<and> summary_conflicts (summary (plan_of draws_low ''s'' [hit_move])) = 1"
  by code_simp

section \<open>The planner: operation kinds\<close>







lemma str_includes_sublist: "str_includes s t = sublist t s"
  by (induction s) (auto simp: sublist_Cons_right)



lemma toLowerCase_char_backslash [simp]: "toLowerCase_char c = backslash \<longleftrightarrow> c = backslash"
proof
  assume c: "c = backslash"
  then have "(of_char c :: nat) = 92" by (simp add: backslash_def)
  then show "toLowerCase_char c = backslash"
    using c by (simp add: toLowerCase_char_def Let_def)
next
  assume eq: "toLowerCase_char c = backslash"
  let ?n = "of_char c :: nat"
  show "c = backslash"
  proof (cases "(65 \<le> ?n \<and> ?n \<le> 90) \<or> (192 \<le> ?n \<and> ?n \<le> 222 \<and> ?n \<noteq> 215)")
    case True
    with eq have "char_of (?n + 32) = backslash"
      by (simp add: toLowerCase_char_def Let_def)
    then have "(of_char (char_of (?n + 32) :: char) :: nat) = of_char backslash" by simp
    then have "(?n + 32) mod 256 = 92" by (simp add: of_char_of backslash_def)
    moreover from True have "?n + 32 < 256" by linarith
    ultimately have "?n + 32 = 92" by simp
    with True have False by linarith
    then show ?thesis ..
  next
    case False
    with eq show ?thesis by (simp add: toLowerCase_char_def Let_def)
  qed
qed

lemma toLowerCase_append [simp]: "toLowerCase (a @ b) = toLowerCase a @ toLowerCase b"
  by (simp add: toLowerCase_def)

lemma toLowerCase_Cons [simp]: "toLowerCase (c # s) = toLowerCase_char c # toLowerCase s"
  by (simp add: toLowerCase_def)

lemma toLowerCase_Nil [simp]: "toLowerCase [] = []"
  by (simp add: toLowerCase_def)

lemma toLowerCase_Nil_iff [simp]: "toLowerCase s = [] \<longleftrightarrow> s = []"
  by (simp add: toLowerCase_def)





lemma split_nonempty [simp]: "split s c \<noteq> []"
  by (induction s) (auto split: list.splits)






lemma asciiLetter_backslash [simp]: "\<not> asciiLetter backslash"
  by code_simp








text \<open>
  What the classification below leaves out: two different network shares. Neither path has
  a drive letter, \<^verbatim>\<open>isCrossVolume\<close> compares the empty text before the first
  backslash of each, and the hit is planned as a \<open>Move\<close>.
\<close>

lemma isCrossVolume_network_shares:
  "volumeOf (path hit_unc) = Some (Share [''srv1'', ''share''])
   \<and> volumeOf ([backslash, backslash] @ join [''srv2'', ''other'', ''a''] [backslash])
       = Some (Share [''srv2'', ''other''])
   \<and> \<not> isCrossVolume (path hit_unc)
          ([backslash, backslash] @ join [''srv2'', ''other'', ''a''] [backslash])
   \<and> fst (determineOperationKind draws_high 0 hit_unc) = Move"
  by code_simp




section \<open>The planner: destination inside source\<close>

text \<open>
  What the program tests before it reports \<open>DestInsideSource\<close>: the lower-cased source path
  contains the lower-cased destination. A node with that conflict is always skipped.
\<close>

lemma DestInsideSource_iff:
  "DestInsideSource \<in> set (fst (analyzeConflicts rnd k hit))
   \<longleftrightarrow> (\<exists>d. truthy_string (dest_preview hit) = Some d
          \<and> str_includes (toLowerCase (path hit)) (toLowerCase d))"
  by (auto simp: analyzeConflicts_def Let_def split: option.splits prod.splits if_splits)

lemma DestInsideSource_forces_Skip:
  assumes "DestInsideSource \<in> set (fst (analyzeConflicts rnd1 k1 hit))"
  shows "fst (determineOperationKind rnd2 k2 hit) = Skip"
proof -
  from assms obtain d where d: "truthy_string (dest_preview hit) = Some d"
    "str_includes (toLowerCase (path hit)) (toLowerCase d)"
    by (auto simp: DestInsideSource_iff)
  then have "DestInsideSource \<in> set (fst (analyzeConflicts rnd2 k2 hit))"
    by (auto simp: DestInsideSource_iff)
  then have "fst (analyzeConflicts rnd2 k2 hit) \<noteq> []" by auto
  then show ?thesis
    by (auto simp: determineOperationKind_def d Let_def split: prod.splits)
qed

text \<open>
  Claim C3 at the hit that moves \<^verbatim>\<open>C:\A\<close> to \<^verbatim>\<open>C:\A\sub\A\<close>: the destination
  is a descendant of the source, and the program reports no conflict and plans a \<open>Move\<close>.
\<close>

theorem DestInsideSource_missed:
  "isDescendant (join [''C:'', ''A'', ''sub'', ''A''] [backslash]) (path hit_inside)
   \<and> dest_preview hit_inside = Some (join [''C:'', ''A'', ''sub'', ''A''] [backslash])
   \<and> fst (analyzeConflicts draws_high 0 hit_inside) = []
   \<and> fst (determineOperationKind draws_high 0 hit_inside) = Move
   \<and> map (conflicts \<circ> snd) (nodes (plan_of draws_high ''s'' [hit_inside])) = [[]]
   \<and> map (kind \<circ> snd) (nodes (plan_of draws_high ''s'' [hit_inside])) = [Move]"
  by code_simp

text \<open>
  The same for every hit: when the destination is a descendant of the source, no sequence of
  draws makes the program report the conflict, because a string cannot contain a longer one.
\<close>

lemma str_includes_length: "str_includes s t \<Longrightarrow> length t \<le> length s"
  by (simp add: str_includes_sublist sublist_length_le)

lemma DestInsideSource_never_for_descendant:
  assumes "truthy_string (dest_preview hit) = Some d" and "isDescendant d (path hit)"
  shows "DestInsideSource \<notin> set (fst (analyzeConflicts rnd k hit))"
proof
  assume "DestInsideSource \<in> set (fst (analyzeConflicts rnd k hit))"
  with assms(1) have "str_includes (toLowerCase (path hit)) (toLowerCase d)"
    by (simp add: DestInsideSource_iff)
  then have "length d \<le> length (path hit)"
    using str_includes_length [of "toLowerCase (path hit)" "toLowerCase d"]
    by (simp add: toLowerCase_def)
  with assms(2) show False by (simp add: isDescendant_def)
qed

section \<open>The scanner: hits and warnings\<close>


lemma analyzeWarnings_LongPath:
  "LongPath \<in> set (fst (analyzeWarnings rnd k p)) \<longleftrightarrow> 250 < length p"
  by (auto simp: analyzeWarnings_def Let_def)

lemma mockResultsLoop_hits:
  "\<exists>new. fst (mockResultsLoop rx rules now rnd k folders results) = results @ new
     \<and> map path new = map folder_path folders
     \<and> map name new = map folder_name folders
     \<and> map matched_rule new
         = map (\<lambda>f. label_or_id (findMatchingRule rx rules (folder_name f))) folders
     \<and> map dest_preview new
         = map (\<lambda>f. map_option (generateDestinationPath now f)
                       (findMatchingRule rx rules (folder_name f))) folders
     \<and> map size_bytes new = map (\<lambda>f. Some (folder_size f)) folders
     \<and> map (\<lambda>h. LongPath \<in> set (warnings h)) new
         = map (\<lambda>f. 250 < length (folder_path f)) folders"
proof (induction folders arbitrary: k results)
  case Nil
  then show ?case by simp
next
  case (Cons folder folders)
  obtain ws k' where w: "analyzeWarnings rnd k (folder_path folder) = (ws, k')" by force
  then have lp: "LongPath \<in> set ws \<longleftrightarrow> 250 < length (folder_path folder)"
    using analyzeWarnings_LongPath [of rnd k "folder_path folder"] by simp
  let ?m = "findMatchingRule rx rules (folder_name folder)"
  let ?hit = "\<lparr>path = folder_path folder, name = folder_name folder,
               matched_rule = label_or_id ?m,
               dest_preview = map_option (generateDestinationPath now folder) ?m,
               warnings = ws, size_bytes = Some (folder_size folder)\<rparr>"
  have step: "mockResultsLoop rx rules now rnd k (folder # folders) results
        = mockResultsLoop rx rules now rnd k' folders (results @ [?hit])"
    by (simp add: w Let_def map_option_case)
  from Cons [of k' "results @ [?hit]"] obtain new where new:
    "fst (mockResultsLoop rx rules now rnd k' folders (results @ [?hit]))
       = (results @ [?hit]) @ new"
    "map path new = map folder_path folders"
    "map name new = map folder_name folders"
    "map matched_rule new
         = map (\<lambda>f. label_or_id (findMatchingRule rx rules (folder_name f))) folders"
    "map dest_preview new
         = map (\<lambda>f. map_option (generateDestinationPath now f)
                       (findMatchingRule rx rules (folder_name f))) folders"
    "map size_bytes new = map (\<lambda>f. Some (folder_size f)) folders"
    "map (\<lambda>h. LongPath \<in> set (warnings h)) new
         = map (\<lambda>f. 250 < length (folder_path f)) folders"
    by blast
  let ?new = "?hit # new"
  have "fst (mockResultsLoop rx rules now rnd k (folder # folders) results) = results @ ?new"
    using step new(1) by simp
  moreover have "map path ?new = map folder_path (folder # folders)" using new(2) by simp
  moreover have "map name ?new = map folder_name (folder # folders)" using new(3) by simp
  moreover have "map matched_rule ?new
         = map (\<lambda>f. label_or_id (findMatchingRule rx rules (folder_name f))) (folder # folders)"
    using new(4) by simp
  moreover have "map dest_preview ?new
         = map (\<lambda>f. map_option (generateDestinationPath now f)
                       (findMatchingRule rx rules (folder_name f))) (folder # folders)"
    using new(5) by simp
  moreover have "map size_bytes ?new = map (\<lambda>f. Some (folder_size f)) (folder # folders)"
    using new(6) by simp
  moreover have "map (\<lambda>h. LongPath \<in> set (warnings h)) ?new
         = map (\<lambda>f. 250 < length (folder_path f)) (folder # folders)"
    using new(7) lp by simp
  ultimately show ?case by blast
qed

lemma length_generateRealisticFolders: "length (generateRealisticFolders rootPath) = 3"
  by (simp add: generateRealisticFolders_def Let_def)

text \<open>
  Claim C8, as the program has it. \<^verbatim>\<open>analyzeWarnings\<close> puts \<open>LongPath\<close> among the
  warnings exactly when the path is longer than 250 characters, and so every hit that
  \<^verbatim>\<open>generateMockResults\<close> appends carries \<open>LongPath\<close> exactly when its path is longer
  than 250 characters.
\<close>

theorem generateMockResults_LongPath:
  fixes rx rules now rnd k rootPath results
  defines "out \<equiv> fst (generateMockResults rx rules now rnd k rootPath results)"
  shows "(LongPath \<in> set (fst (analyzeWarnings rnd k p)) \<longleftrightarrow> 250 < length p)
       \<and> take (length results) out = results
       \<and> map path (drop (length results) out)
           = map folder_path (generateRealisticFolders rootPath)
       \<and> map (\<lambda>h. LongPath \<in> set (warnings h)) (drop (length results) out)
           = map (\<lambda>h. 250 < length (path h)) (drop (length results) out)"
proof -
  from mockResultsLoop_hits [of rx rules now rnd k "generateRealisticFolders rootPath" results]
  obtain new where new: "out = results @ new"
    "map path new = map folder_path (generateRealisticFolders rootPath)"
    "map (\<lambda>h. LongPath \<in> set (warnings h)) new
         = map (\<lambda>f. 250 < length (folder_path f)) (generateRealisticFolders rootPath)"
    unfolding out_def generateMockResults_def by blast
  have "map (\<lambda>h. 250 < length (path h)) new = map (\<lambda>p. 250 < length p) (map path new)"
    by simp
  also have "\<dots> = map (\<lambda>f. 250 < length (folder_path f)) (generateRealisticFolders rootPath)"
    by (simp only: new(2)) simp
  finally show ?thesis using new analyzeWarnings_LongPath by simp
qed

text \<open>
  Claim C8 as stated fails: a path of 248 characters exceeds 247 and gets no \<open>LongPath\<close>.
\<close>

theorem LongPath_247_counterexample:
  "length (replicate 248 (CHR ''a'')) = 248
   \<and> LongPath \<notin> set (fst (analyzeWarnings draws_high 0 (replicate 248 (CHR ''a''))))"
  by code_simp

text \<open>
  Claim C4, as the program has it. \<^verbatim>\<open>generateMockResults\<close> keeps the hits it is given
  and appends one hit for each of the three folders it visits, whether or not a rule matched.
  The hit's \<open>matched_rule\<close> is the label of the matched rule when the rule has a non-empty
  label and its id otherwise; \<open>matched_rule\<close> and \<open>dest_preview\<close> are present exactly
  when the matcher returned a rule.
\<close>

theorem generateMockResults_hits:
  fixes rx rules now rnd k rootPath results
  defines "out \<equiv> fst (generateMockResults rx rules now rnd k rootPath results)"
    and "folders \<equiv> generateRealisticFolders rootPath"
  shows "take (length results) out = results
       \<and> length (drop (length results) out) = length folders
       \<and> length folders = 3
       \<and> map path (drop (length results) out) = map folder_path folders
       \<and> map name (drop (length results) out) = map folder_name folders
       \<and> map matched_rule (drop (length results) out)
           = map (\<lambda>f. case findMatchingRule rx rules (folder_name f) of
                         None \<Rightarrow> None
                       | Some rule \<Rightarrow>
                           Some (case label rule of
                                   Some l \<Rightarrow> if l \<noteq> [] then l else rule_id rule
                                 | None \<Rightarrow> rule_id rule)) folders
       \<and> map dest_preview (drop (length results) out)
           = map (\<lambda>f. case findMatchingRule rx rules (folder_name f) of
                         None \<Rightarrow> None
                       | Some rule \<Rightarrow> Some (generateDestinationPath now f rule)) folders
       \<and> map (\<lambda>h. dest_preview h \<noteq> None) (drop (length results) out)
           = map (\<lambda>f. findMatchingRule rx rules (folder_name f) \<noteq> None) folders
       \<and> map (\<lambda>h. matched_rule h \<noteq> None) (drop (length results) out)
           = map (\<lambda>f. findMatchingRule rx rules (folder_name f) \<noteq> None) folders"
proof -
  from mockResultsLoop_hits [of rx rules now rnd k folders results]
  obtain new where new: "out = results @ new"
    "map path new = map folder_path folders"
    "map name new = map folder_name folders"
    "map matched_rule new
         = map (\<lambda>f. label_or_id (findMatchingRule rx rules (folder_name f))) folders"
    "map dest_preview new
         = map (\<lambda>f. map_option (generateDestinationPath now f)
                       (findMatchingRule rx rules (folder_name f))) folders"
    unfolding out_def folders_def generateMockResults_def by blast
  have len: "length new = length folders" using new(2) by (metis length_map)
  have l: "(\<lambda>f. label_or_id (findMatchingRule rx rules (folder_name f)))
      = (\<lambda>f. case findMatchingRule rx rules (folder_name f) of
                         None \<Rightarrow> None
                       | Some rule \<Rightarrow>
                           Some (case label rule of
                                   Some l \<Rightarrow> if l \<noteq> [] then l else rule_id rule
                                 | None \<Rightarrow> rule_id rule))"
    by (auto simp: label_or_id_def fun_eq_iff split: option.splits)
  have d: "(\<lambda>f. map_option (generateDestinationPath now f)
                       (findMatchingRule rx rules (folder_name f)))
      = (\<lambda>f. case findMatchingRule rx rules (folder_name f) of
                         None \<Rightarrow> None
                       | Some rule \<Rightarrow> Some (generateDestinationPath now f rule))"
    by (auto simp: fun_eq_iff split: option.splits)
  have dp: "map (\<lambda>h. dest_preview h \<noteq> None) new = map (\<lambda>x. x \<noteq> None) (map dest_preview new)"
    by simp
  have mr: "map (\<lambda>h. matched_rule h \<noteq> None) new = map (\<lambda>x. x \<noteq> None) (map matched_rule new)"
    by simp
  have dp': "map (\<lambda>h. dest_preview h \<noteq> None) new
           = map (\<lambda>f. findMatchingRule rx rules (folder_name f) \<noteq> None) folders"
    unfolding dp new(5) by simp
  have mr': "map (\<lambda>h. matched_rule h \<noteq> None) new
           = map (\<lambda>f. findMatchingRule rx rules (folder_name f) \<noteq> None) folders"
    unfolding mr new(4) by (simp add: label_or_id_def split: option.splits)
  show ?thesis
    using new(1,2,3) new(4) [unfolded l] new(5) [unfolded d] len dp' mr'
      length_generateRealisticFolders [of rootPath]
    by (simp add: folders_def)
qed

text \<open>
  Claim C4 as stated fails. Under the root \<^verbatim>\<open>C:\data\<close> and an empty rule set no folder
  is matched, and three hits are emitted. With a rule of id \<open>c\<close> and label \<open>Caches\<close> that
  matches the folder \<open>cache\<close>, the hit's \<open>matched_rule\<close> is the label, not the id.
\<close>

theorem generateMockResults_counterexample:
  "map (\<lambda>f. findMatchingRule no_regexp [] (folder_name f))
       (generateRealisticFolders (join [''C:'', ''data''] [backslash]))
     = [None, None, None]
   \<and> map name (fst (generateMockResults no_regexp [] today draws_high 0
                       (join [''C:'', ''data''] [backslash]) []))
     = [''data_backup'', ''cache'', ''images'']
   \<and> map matched_rule (fst (generateMockResults no_regexp [rule_cache] today draws_high 0
                               (join [''C:'', ''data''] [backslash]) []))
     = [None, Some ''Caches'', None]
   \<and> findMatchingRule no_regexp [rule_cache] ''cache'' = Some rule_cache
   \<and> rule_id rule_cache = ''c''"
  by code_simp

section \<open>The scanner: destination templates\<close>

lemma indexOf_None_iff: "indexOf s t = None \<longleftrightarrow> \<not> str_includes s t"
  by (induction s) auto

lemma replace_absent: "\<not> str_includes s pat \<Longrightarrow> replace s pat rep = s"
  by (simp add: replace_def indexOf_None_iff [symmetric])

lemma str_includes_set: "str_includes s t \<Longrightarrow> set t \<subseteq> set s"
  by (auto simp: str_includes_sublist dest: set_mono_sublist)

lemma no_brace_no_token: "c \<notin> set s \<Longrightarrow> \<not> str_includes s (c # t)"
  using str_includes_set [of s "c # t"] by auto

lemma indexOf_first:
  "c \<notin> set a \<Longrightarrow> indexOf (a @ c # t @ b) (c # t) = Some (length a)"
  by (induction a) auto

lemma getSubstitution_plain:
  "CHR ''$'' \<notin> set rep \<Longrightarrow> getSubstitution m pre post rep = rep"
  by (induction m pre post rep rule: getSubstitution.induct) auto

lemma replace_first:
  assumes "c \<notin> set a" and "CHR ''$'' \<notin> set rep"
  shows "replace (a @ c # t @ b) (c # t) rep = a @ rep @ b"
  using assms by (simp add: replace_def indexOf_first getSubstitution_plain)

lemma str_includes_after_brace:
  assumes "c \<notin> set a" and "\<not> prefix t r" and "\<not> str_includes r (c # t)"
  shows "\<not> str_includes (a @ c # r) (c # t)"
  using assms by (induction a) auto

lemma digit_char_digit: "d < 10 \<Longrightarrow> digit_char d \<in> set ''0123456789''"
  unfolding digit_char_def by (rule nth_mem) simp

lemma toString_digits: "set (toString n) \<subseteq> set ''0123456789''"
proof (induction n rule: toString.induct)
  case (1 n)
  show ?case
  proof (cases "n < 10")
    case True
    then have "toString n = [digit_char n]" by (subst toString.simps) simp
    with True digit_char_digit [of n] show ?thesis by simp
  next
    case False
    then have "toString n = toString (n div 10) @ [digit_char (n mod 10)]"
      by (subst toString.simps) simp
    with 1 [OF False] digit_char_digit [of "n mod 10"] show ?thesis by simp
  qed
qed

lemma toString_plain: "CHR ''$'' \<notin> set (toString n)" "CHR ''{'' \<notin> set (toString n)"
  using toString_digits [of n] by auto

lemma padStart_plain:
  "CHR ''$'' \<notin> set (padStart (toString n) m (CHR ''0''))"
  "CHR ''{'' \<notin> set (padStart (toString n) m (CHR ''0''))"
  using toString_plain [of n] by (auto simp: padStart_def)

lemma generateDestinationPath_verbatim:
  assumes "\<not> str_includes (template rule) ''{name}''"
    and "\<not> str_includes (template rule) ''{year}''"
    and "\<not> str_includes (template rule) ''{month}''"
    and "\<not> str_includes (template rule) ''{day}''"
  shows "generateDestinationPath now f rule = dest_root rule @ [backslash] @ template rule"
  using assms by (simp add: generateDestinationPath_def Let_def replace_absent)

lemma generateDestinationPath_name:
  assumes t: "template rule = a @ ''{name}'' @ b"
    and a: "CHR ''{'' \<notin> set a" and b: "CHR ''{'' \<notin> set b"
    and n: "CHR ''{'' \<notin> set (folder_name f)" "CHR ''$'' \<notin> set (folder_name f)"
  shows "generateDestinationPath now f rule
         = dest_root rule @ [backslash] @ a @ folder_name f @ b"
proof -
  have 1: "replace (template rule) ''{name}'' (folder_name f) = a @ folder_name f @ b"
    using replace_first [OF a n(2), of "''name}''" b] t by simp
  have nb: "CHR ''{'' \<notin> set (a @ folder_name f @ b)" using a b n by simp
  show ?thesis
    by (simp add: generateDestinationPath_def Let_def 1 del: append_assoc)
       (simp add: replace_absent no_brace_no_token [OF nb])
qed

lemma generateDestinationPath_date:
  assumes t: "template rule = a @ ''{year}'' @ b @ ''{month}'' @ c @ ''{day}'' @ d"
    and a: "CHR ''{'' \<notin> set a" and b: "CHR ''{'' \<notin> set b"
    and c: "CHR ''{'' \<notin> set c" and d: "CHR ''{'' \<notin> set d"
  shows "generateDestinationPath now f rule
         = dest_root rule @ [backslash] @ a @ toString (getFullYear now) @ b
           @ padStart (toString (getMonth now + 1)) 2 (CHR ''0'') @ c
           @ padStart (toString (getDate now)) 2 (CHR ''0'') @ d"
proof -
  let ?Y = "toString (getFullYear now)"
  let ?M = "padStart (toString (getMonth now + 1)) 2 (CHR ''0'')"
  let ?D = "padStart (toString (getDate now)) 2 (CHR ''0'')"
  let ?a3 = "''day}'' @ d"
  let ?a2 = "''month}'' @ c"
  let ?a1 = "''year}'' @ b"
  have b3: "CHR ''{'' \<notin> set ?a3" and b2: "CHR ''{'' \<notin> set ?a2"
    and b1: "CHR ''{'' \<notin> set ?a1"
    using b c d by simp_all
  have n3: "\<not> str_includes ?a3 (CHR ''{'' # t)" for t
    using b3 by (rule no_brace_no_token)
  have n2: "\<not> str_includes (?a2 @ CHR ''{'' # ?a3) (CHR ''{'' # t)"
    if "\<not> prefix t ?a3" for t
    using b2 that n3 by (rule str_includes_after_brace)
  have n1: "\<not> str_includes (?a1 @ CHR ''{'' # ?a2 @ CHR ''{'' # ?a3) (CHR ''{'' # t)"
    if "\<not> prefix t (?a2 @ CHR ''{'' # ?a3)" "\<not> prefix t ?a3" for t
    using b1 that(1) n2 [OF that(2)] by (rule str_includes_after_brace)
  have n0: "\<not> str_includes (a @ CHR ''{'' # ?a1 @ CHR ''{'' # ?a2 @ CHR ''{'' # ?a3)
              (CHR ''{'' # t)"
    if "\<not> prefix t (?a1 @ CHR ''{'' # ?a2 @ CHR ''{'' # ?a3)"
      "\<not> prefix t (?a2 @ CHR ''{'' # ?a3)" "\<not> prefix t ?a3" for t
    using a that(1) n1 [OF that(2,3)] by (rule str_includes_after_brace)
  have shape: "template rule = a @ CHR ''{'' # ?a1 @ CHR ''{'' # ?a2 @ CHR ''{'' # ?a3"
    using t by simp
  have na: "\<not> str_includes (template rule) ''{name}''"
    unfolding shape by (rule n0) simp_all
  have 1: "replace (template rule) ''{name}'' (folder_name f) = template rule"
    using na by (rule replace_absent)
  have 2: "replace (template rule) ''{year}'' ?Y
           = a @ ?Y @ b @ ''{month}'' @ c @ ''{day}'' @ d"
    using replace_first [OF a toString_plain(1) [of "getFullYear now"],
        of "''year}''" "b @ ''{month}'' @ c @ ''{day}'' @ d"] t
    by simp
  have ayb: "CHR ''{'' \<notin> set (a @ ?Y @ b)" using a b toString_plain(2) by simp
  have 3: "replace (a @ ?Y @ b @ ''{month}'' @ c @ ''{day}'' @ d) ''{month}'' ?M
           = a @ ?Y @ b @ ?M @ c @ ''{day}'' @ d"
    using replace_first [OF ayb padStart_plain(1) [of "getMonth now + 1" 2],
        of "''month}''" "c @ ''{day}'' @ d"]
    by simp
  have aybmc: "CHR ''{'' \<notin> set (a @ ?Y @ b @ ?M @ c)"
    using a b c toString_plain(2) padStart_plain(2) by simp
  have 4: "replace (a @ ?Y @ b @ ?M @ c @ ''{day}'' @ d) ''{day}'' ?D
           = a @ ?Y @ b @ ?M @ c @ ?D @ d"
    using replace_first [OF aybmc padStart_plain(1) [of "getDate now" 2], of "''day}''" d]
    by simp
  show ?thesis
    by (simp only: generateDestinationPath_def Let_def 1 2 3 4)
qed


text \<open>
  \<open>replaceFirst\<close> replaces the first occurrence of the token and nothing else, and
  \<^verbatim>\<open>replace\<close> does the same when the replacement text has no dollar sign.
\<close>

lemma replaceFirst_absent: "\<not> str_includes s token \<Longrightarrow> replaceFirst token text s = s"
  by (induction s) auto

lemma replaceFirst_prefix: "replaceFirst token text (token @ post) = text @ post"
proof (cases "token @ post")
  case Nil
  then show ?thesis by simp
next
  case (Cons a list)
  then have p: "prefix token (a # list)" by (metis prefixI)
  from Cons have d: "drop (length token) (a # list) = post" by (metis append_eq_conv_conj)
  from p d have "replaceFirst token text (a # list) = text @ post" by simp
  with Cons show ?thesis by simp
qed

lemma replaceFirst_first:
  assumes "\<forall>i < length pre. \<not> prefix token (drop i (pre @ token @ post))"
  shows "replaceFirst token text (pre @ token @ post) = pre @ text @ post"
  using assms
proof (induction pre)
  case Nil
  then show ?case by (simp add: replaceFirst_prefix)
next
  case (Cons c pre)
  from Cons.prems have "\<not> prefix token (drop 0 ((c # pre) @ token @ post))" by blast
  then have head: "\<not> prefix token (c # pre @ token @ post)" by simp
  have "\<forall>i < length pre. \<not> prefix token (drop i (pre @ token @ post))"
  proof (intro allI impI)
    fix i
    assume "i < length pre"
    then have "Suc i < length (c # pre)" by simp
    with Cons.prems have "\<not> prefix token (drop (Suc i) ((c # pre) @ token @ post))" by blast
    then show "\<not> prefix token (drop i (pre @ token @ post))" by simp
  qed
  from Cons.IH [OF this] head show ?case by simp
qed

lemma replace_replaceFirst:
  "CHR ''$'' \<notin> set text \<Longrightarrow> replace s token text = replaceFirst token text s"
  by (induction s) (auto simp: replace_def getSubstitution_plain split: option.splits)

text \<open>
  Claim C5, as the program has it. For a folder whose name has no dollar sign, the
  destination is \<open>dest_root\<close>, a backslash and the template after four substitutions, each
  of the first occurrence only: of \<^verbatim>\<open>{name}\<close> by the folder name, then of
  \<^verbatim>\<open>{year}\<close> by the year, of \<^verbatim>\<open>{month}\<close> by the two-digit month and of
  \<^verbatim>\<open>{day}\<close> by the two-digit day of the local date. Everything else in the template
  stays as it is, also \<^verbatim>\<open>{label}\<close>, \<^verbatim>\<open>{yyyy}\<close>, \<^verbatim>\<open>{yyyyMM}\<close>,
  \<^verbatim>\<open>{drive}\<close>, \<^verbatim>\<open>{parent}\<close> and any unknown token, and every template has a
  result.
\<close>

theorem generateDestinationPath_tokens:
  assumes "CHR ''$'' \<notin> set (folder_name f)"
  shows "generateDestinationPath now f rule =
     dest_root rule @ [backslash]
     @ replaceFirst ''{day}'' (padStart (toString (getDate now)) 2 (CHR ''0''))
         (replaceFirst ''{month}'' (padStart (toString (getMonth now + 1)) 2 (CHR ''0''))
            (replaceFirst ''{year}'' (toString (getFullYear now))
               (replaceFirst ''{name}'' (folder_name f) (template rule))))"
proof -
  have 1: "replace t ''{name}'' (folder_name f) = replaceFirst ''{name}'' (folder_name f) t"
    for t using assms by (rule replace_replaceFirst)
  have 2: "replace t ''{year}'' (toString (getFullYear now))
           = replaceFirst ''{year}'' (toString (getFullYear now)) t" for t
    using toString_plain(1) by (rule replace_replaceFirst)
  have 3: "replace t ''{month}'' (padStart (toString (getMonth now + 1)) 2 (CHR ''0''))
           = replaceFirst ''{month}'' (padStart (toString (getMonth now + 1)) 2 (CHR ''0'')) t"
    for t using padStart_plain(1) by (rule replace_replaceFirst)
  have 4: "replace t ''{day}'' (padStart (toString (getDate now)) 2 (CHR ''0''))
           = replaceFirst ''{day}'' (padStart (toString (getDate now)) 2 (CHR ''0'')) t"
    for t using padStart_plain(1) by (rule replace_replaceFirst)
  show ?thesis
    by (simp only: generateDestinationPath_def Let_def 1 2 3 4)
qed

text \<open>
  The theorem at the folder \<open>report_q1\<close> on 2 November 2026, for the templates
  \<^verbatim>\<open>{year}\{name}\<close>, \<^verbatim>\<open>{year}\{month}-{day}\<close> and \<^verbatim>\<open>{label}_{parent}\<close>.
\<close>

theorem generateDestinationPath_tokens_witness:
  "CHR ''$'' \<notin> set (folder_name folder_report)
   \<and> generateDestinationPath today folder_report rule_year_name
       = join [''C:'', ''out'', ''2026'', ''report_q1''] [backslash]
   \<and> generateDestinationPath today folder_report rule_date
       = join [''C:'', ''out'', ''2026'', ''11-02''] [backslash]
   \<and> generateDestinationPath today folder_report rule_label
       = join [''C:'', ''out'', ''{label}_{parent}''] [backslash]"
proof -
  have h: "CHR ''$'' \<notin> set (folder_name folder_report)" by code_simp
  have e1: "dest_root rule_year_name @ [backslash]
     @ replaceFirst ''{day}'' (padStart (toString (getDate today)) 2 (CHR ''0''))
         (replaceFirst ''{month}'' (padStart (toString (getMonth today + 1)) 2 (CHR ''0''))
            (replaceFirst ''{year}'' (toString (getFullYear today))
               (replaceFirst ''{name}'' (folder_name folder_report) (template rule_year_name))))
     = join [''C:'', ''out'', ''2026'', ''report_q1''] [backslash]"
    by code_simp
  have e2: "dest_root rule_date @ [backslash]
     @ replaceFirst ''{day}'' (padStart (toString (getDate today)) 2 (CHR ''0''))
         (replaceFirst ''{month}'' (padStart (toString (getMonth today + 1)) 2 (CHR ''0''))
            (replaceFirst ''{year}'' (toString (getFullYear today))
               (replaceFirst ''{name}'' (folder_name folder_report) (template rule_date))))
     = join [''C:'', ''out'', ''2026'', ''11-02''] [backslash]"
    by code_simp
  have e3: "dest_root rule_label @ [backslash]
     @ replaceFirst ''{day}'' (padStart (toString (getDate today)) 2 (CHR ''0''))
         (replaceFirst ''{month}'' (padStart (toString (getMonth today + 1)) 2 (CHR ''0''))
            (replaceFirst ''{year}'' (toString (getFullYear today))
               (replaceFirst ''{name}'' (folder_name folder_report) (template rule_label))))
     = join [''C:'', ''out'', ''{label}_{parent}''] [backslash]"
    by code_simp
  note t = generateDestinationPath_tokens [OF h, of today]
  from h t [of rule_year_name] t [of rule_date] t [of rule_label] show ?thesis
    by (simp only: e1 e2 e3) simp
qed

text \<open>
  Claim C5 as stated fails: in the template \<^verbatim>\<open>{yyyy}\{name}\<close> the token
  \<^verbatim>\<open>{yyyy}\<close> is not substituted, and a template with \<^verbatim>\<open>{label}\<close> and
  \<^verbatim>\<open>{parent}\<close> comes out verbatim for a rule that has a label; neither is rejected.
\<close>

theorem generateDestinationPath_counterexample:
  "template rule_yyyy = ''{yyyy}'' @ [backslash] @ ''{name}''
   \<and> generateDestinationPath today folder_report rule_yyyy
       = join [''C:'', ''out'', ''{yyyy}'', ''report_q1''] [backslash]
   \<and> label rule_label = Some ''Caches''
   \<and> generateDestinationPath today folder_report rule_label
       = join [''C:'', ''out'', ''{label}_{parent}''] [backslash]"
  by code_simp

section \<open>The executor: cancellation\<close>

lemma simulateLoop_cancelled:
  "isCancelled (sim_executor st) \<Longrightarrow> simulateLoop cancelAt rnd i ops st = st"
  by (cases ops) simp_all

lemma simulateLoop_step_cancel:
  assumes "\<not> isCancelled (sim_executor st)" "cancelAt i"
  shows "sim_trace (simulateLoop cancelAt rnd i (operation # ops) st)
           = sim_trace st @ [OpStarted i, CancelSignalled]"
    and "isCancelled (sim_executor (simulateLoop cancelAt rnd i (operation # ops) st))"
  using assms by (simp_all add: Let_def cancel_def)

lemma simulateLoop_step_run:
  assumes running: "\<not> isCancelled (sim_executor st)" and no: "\<not> cancelAt i"
  shows "\<exists>st2. simulateLoop cancelAt rnd i (operation # ops) st
               = simulateLoop cancelAt rnd (i + 1) ops st2
     \<and> \<not> isCancelled (sim_executor st2)
     \<and> sim_trace st2 = sim_trace st @ [OpStarted i, OpCompleted i]"
proof -
  define st1 where "st1 =
    st\<lparr>sim_progress := (sim_progress st)\<lparr>current_item := Some (op_path operation)\<rparr>,
       sim_draw := sim_draw st + 1,
       sim_trace := sim_trace st @ [OpStarted i]\<rparr>"
  define st2 where "st2 =
    st1\<lparr>completedOps := completedOps st1 + 1,
        processedBytes := add_number (processedBytes st1) (op_size operation),
        sim_progress := (sim_progress st1)
           \<lparr>completed_ops := completedOps st1 + 1,
            bytes_processed := add_number (processedBytes st1) (op_size operation)\<rparr>,
        sim_draw := sim_draw st1 + 1,
        sim_trace := sim_trace st1 @ [OpCompleted i]\<rparr>"
  from running no have
    "simulateLoop cancelAt rnd i (operation # ops) st = simulateLoop cancelAt rnd (i + 1) ops st2"
    by (simp add: Let_def st1_def st2_def)
  moreover have "\<not> isCancelled (sim_executor st2)"
    using running by (simp add: st1_def st2_def)
  moreover have "sim_trace st2 = sim_trace st @ [OpStarted i, OpCompleted i]"
    by (simp add: st1_def st2_def)
  ultimately show ?thesis by blast
qed

lemma simulateLoop_trace:
  assumes "\<not> isCancelled (sim_executor st)"
  shows "\<exists>new. sim_trace (simulateLoop cancelAt rnd i ops st) = sim_trace st @ new
     \<and> (CancelSignalled \<in> set new \<longrightarrow> ends_with_cancel new)
     \<and> (isCancelled (sim_executor (simulateLoop cancelAt rnd i ops st))
          \<longleftrightarrow> CancelSignalled \<in> set new)
     \<and> ((\<exists>j < length ops. cancelAt (i + j)) \<longrightarrow> CancelSignalled \<in> set new)"
  using assms
proof (induction ops arbitrary: i st)
  case Nil
  then show ?case by simp
next
  case (Cons operation ops)
  show ?case
  proof (cases "cancelAt i")
    case True
    note s = simulateLoop_step_cancel
      [where cancelAt = cancelAt and i = i and rnd = rnd and operation = operation
         and ops = ops, OF Cons.prems True]
    have e: "ends_with_cancel [OpStarted i, CancelSignalled]"
      by (simp add: ends_with_cancel_def)
    show ?thesis
      by (rule exI [of _ "[OpStarted i, CancelSignalled]"])
         (simp add: s e del: simulateLoop.simps)
  next
    case False
    from simulateLoop_step_run
      [where cancelAt = cancelAt and i = i and rnd = rnd and operation = operation
         and ops = ops, OF Cons.prems False]
    obtain st2 where st2:
      "simulateLoop cancelAt rnd i (operation # ops) st = simulateLoop cancelAt rnd (i + 1) ops st2"
      "\<not> isCancelled (sim_executor st2)"
      "sim_trace st2 = sim_trace st @ [OpStarted i, OpCompleted i]"
      by (elim exE conjE)
    from Cons.IH [OF st2(2), of "i + 1"] obtain new where new:
      "sim_trace (simulateLoop cancelAt rnd (i + 1) ops st2) = sim_trace st2 @ new"
      "CancelSignalled \<in> set new \<longrightarrow> ends_with_cancel new"
      "isCancelled (sim_executor (simulateLoop cancelAt rnd (i + 1) ops st2))
          \<longleftrightarrow> CancelSignalled \<in> set new"
      "(\<exists>j < length ops. cancelAt (i + 1 + j)) \<longrightarrow> CancelSignalled \<in> set new"
      by (elim exE conjE)
    let ?new = "[OpStarted i, OpCompleted i] @ new"
    have 1: "sim_trace (simulateLoop cancelAt rnd i (operation # ops) st) = sim_trace st @ ?new"
      by (simp only: st2(1) new(1) st2(3) append_assoc)
    have 2: "CancelSignalled \<in> set ?new \<longrightarrow> ends_with_cancel ?new"
    proof
      assume "CancelSignalled \<in> set ?new"
      then have "CancelSignalled \<in> set new" by simp
      with new(2) have "ends_with_cancel new" by blast
      then show "ends_with_cancel ?new"
        by (simp add: ends_with_cancel_def butlast_append)
    qed
    have 3: "isCancelled (sim_executor (simulateLoop cancelAt rnd i (operation # ops) st))
          \<longleftrightarrow> CancelSignalled \<in> set ?new"
      by (simp only: st2(1) new(3)) (simp del: simulateLoop.simps)
    have 4: "(\<exists>j < length (operation # ops). cancelAt (i + j)) \<longrightarrow> CancelSignalled \<in> set ?new"
    proof
      assume "\<exists>j < length (operation # ops). cancelAt (i + j)"
      then obtain j where j: "j < length (operation # ops)" "cancelAt (i + j)" by blast
      with False obtain j' where j': "j = Suc j'" by (cases j) auto
      with j have "j' < length ops" "cancelAt (i + 1 + j')" by simp_all
      with new(4) have "CancelSignalled \<in> set new" by blast
      then show "CancelSignalled \<in> set ?new" by simp
    qed
    show ?thesis
      by (rule exI [of _ ?new]) (intro conjI 1 2 3 4)
  qed
qed


lemma executeMovePlan_result:
  assumes g: "generateFileOperations rnd 0 (exec_plan ex) = (ops, k)"
  defines "st0 \<equiv>
     \<lparr>sim_executor = ex\<lparr>exec_session := (exec_session ex)\<lparr>exec_status := Running\<rparr>\<rparr>,
      sim_progress =
        \<lparr>current_item = None, completed_ops = 0,
         total_ops = calculateTotalOperations (exec_plan ex),
         bytes_processed = Finite 0,
         progress_total_bytes =
           Some (case total_bytes (summary (exec_plan ex)) of
                   Some t \<Rightarrow> if t \<noteq> Finite 0 then t else Finite 0
                 | None \<Rightarrow> Finite 0)\<rparr>,
      completedOps = 0, processedBytes = Finite 0, sim_draw = k, sim_trace = []\<rparr>"
  shows "snd (executeMovePlan cancelAt rnd ex) = sim_trace (simulateLoop cancelAt rnd 0 ops st0)"
    and "exec_status (exec_session (fst (executeMovePlan cancelAt rnd ex)))
         = (if isCancelled (sim_executor (simulateLoop cancelAt rnd 0 ops st0))
            then Cancelled else Completed)"
    and "isCancelled (sim_executor st0) = isCancelled ex"
    and "sim_trace st0 = []"
  by (simp_all add: executeMovePlan_def g Let_def st0_def del: simulateLoop.simps)

text \<open>
  Claim C7. When \<^verbatim>\<open>cancel()\<close> was called before the run or is called during the delay
  of one of its operations, the session ends \<open>Cancelled\<close>, and no operation is started after
  the cancellation was signalled (a run cancelled beforehand starts none).
\<close>

theorem cancellation_stops_execution:
  assumes "isCancelled ex
           \<or> (\<exists>i < length (fst (generateFileOperations rnd 0 (exec_plan ex))). cancelAt i)"
  shows "exec_status (exec_session (fst (executeMovePlan cancelAt rnd ex))) = Cancelled
       \<and> (\<forall>pre post j. snd (executeMovePlan cancelAt rnd ex) = pre @ CancelSignalled # post
            \<longrightarrow> OpStarted j \<notin> set post)
       \<and> (isCancelled ex \<longrightarrow> snd (executeMovePlan cancelAt rnd ex) = [])"
proof -
  obtain ops k where g: "generateFileOperations rnd 0 (exec_plan ex) = (ops, k)" by force
  define st0 where "st0 =
     \<lparr>sim_executor = ex\<lparr>exec_session := (exec_session ex)\<lparr>exec_status := Running\<rparr>\<rparr>,
      sim_progress =
        \<lparr>current_item = None, completed_ops = 0,
         total_ops = calculateTotalOperations (exec_plan ex),
         bytes_processed = Finite 0,
         progress_total_bytes =
           Some (case total_bytes (summary (exec_plan ex)) of
                   Some t \<Rightarrow> if t \<noteq> Finite 0 then t else Finite 0
                 | None \<Rightarrow> Finite 0)\<rparr>,
      completedOps = 0, processedBytes = Finite 0, sim_draw = k, sim_trace = []\<rparr>"
  note r = executeMovePlan_result [OF g, folded st0_def]
  show ?thesis
  proof (cases "isCancelled ex")
    case True
    then have "simulateLoop cancelAt rnd 0 ops st0 = st0"
      using r(3) by (simp add: simulateLoop_cancelled)
    with True r show ?thesis by simp
  next
    case False
    then have run: "\<not> isCancelled (sim_executor st0)" using r(3) by simp
    from False assms g have sched: "\<exists>j < length ops. cancelAt (0 + j)" by simp
    from simulateLoop_trace [OF run, of cancelAt rnd 0 ops] obtain new where new:
      "sim_trace (simulateLoop cancelAt rnd 0 ops st0) = sim_trace st0 @ new"
      "CancelSignalled \<in> set new \<longrightarrow> ends_with_cancel new"
      "isCancelled (sim_executor (simulateLoop cancelAt rnd 0 ops st0))
          \<longleftrightarrow> CancelSignalled \<in> set new"
      "(\<exists>j < length ops. cancelAt (0 + j)) \<longrightarrow> CancelSignalled \<in> set new"
      by (elim exE conjE)
    from new(4) sched have c: "CancelSignalled \<in> set new" by blast
    with new(2) have "ends_with_cancel new" by blast
    then have "new = butlast new @ [CancelSignalled]" "CancelSignalled \<notin> set (butlast new)"
      unfolding ends_with_cancel_def by (metis append_butlast_last_id, blast)
    then obtain pre0 where pre0: "new = pre0 @ [CancelSignalled]"
      "CancelSignalled \<notin> set pre0"
      by blast
    have ev: "snd (executeMovePlan cancelAt rnd ex) = pre0 @ [CancelSignalled]"
      using r(1) new(1) r(4) pre0 by simp
    have status: "exec_status (exec_session (fst (executeMovePlan cancelAt rnd ex))) = Cancelled"
      using r(2) new(3) c by simp
    have after: "OpStarted j \<notin> set post"
      if "snd (executeMovePlan cancelAt rnd ex) = pre @ CancelSignalled # post" for pre post j
    proof -
      from that ev have e: "pre0 @ [CancelSignalled] = pre @ CancelSignalled # post" by simp
      have "post = []"
      proof (rule ccontr)
        assume "post \<noteq> []"
        then obtain post' x where "post = post' @ [x]" by (metis rev_exhaust)
        with e have "pre0 @ [CancelSignalled] = (pre @ CancelSignalled # post') @ [x]" by simp
        then have "pre0 = pre @ CancelSignalled # post'" by (simp only: append1_eq_conv)
        with pre0(2) show False by simp
      qed
      then show ?thesis by simp
    qed
    from status after False show ?thesis by blast
  qed
qed

text \<open>
  The theorem at a plan of one node, five file operations, with \<^verbatim>\<open>cancel()\<close> called
  during the delay of the third: two operations complete, the third is started and abandoned.
\<close>

theorem cancellation_stops_execution_witness:
  "\<not> isCancelled executor_example
   \<and> 2 < length (fst (generateFileOperations draws_zero 0 (exec_plan executor_example)))
   \<and> cancel_third 2
   \<and> exec_status (exec_session (fst (executeMovePlan cancel_third draws_zero executor_example)))
       = Cancelled
   \<and> snd (executeMovePlan cancel_third draws_zero executor_example)
       = [OpStarted 0, OpCompleted 0, OpStarted 1, OpCompleted 1, OpStarted 2, CancelSignalled]"
proof -
  have h: "2 < length (fst (generateFileOperations draws_zero 0 (exec_plan executor_example)))
           \<and> cancel_third 2"
    by code_simp
  then have "isCancelled executor_example
           \<or> (\<exists>i < length (fst (generateFileOperations draws_zero 0
                                   (exec_plan executor_example))). cancel_third i)"
    by blast
  from cancellation_stops_execution [OF this]
  have "exec_status (exec_session (fst (executeMovePlan cancel_third draws_zero
           executor_example))) = Cancelled" by blast
  moreover have "\<not> isCancelled executor_example" by code_simp
  moreover have "snd (executeMovePlan cancel_third draws_zero executor_example)
       = [OpStarted 0, OpCompleted 0, OpStarted 1, OpCompleted 1, OpStarted 2, CancelSignalled]"
    by code_simp
  ultimately show ?thesis using h by blast
qed

end
